theory Spec2Isabelle
  imports Complex_Main "HOL-Library.AList" "HOL-Library.Sublist"
begin

section \<open>JavaScript values and strings\<close>

text \<open>
  A JavaScript string is the list of its UTF-16 code units, as integers; \<open>text_of\<close> gives
  the string of an ASCII literal, and \<open>char_code\<close> the code unit of an ASCII
  character.
\<close>

type_synonym jstring = "int list"

definition char_code :: "char \<Rightarrow> int" where
  "char_code c = of_char c"

definition text_of :: "string \<Rightarrow> jstring" where
  "text_of s = map char_code s"

text \<open>
  Values that \<^verbatim>\<open>JSON.parse\<close> produces (request bodies, \<^verbatim>\<open>jsonb\<close> columns).
  A number is the rational its double denotes.  An object lists its own
  properties in enumeration order; its keys are distinct.
\<close>

datatype json =
    JNull
  | JBool bool
  | JNum rat
  | JStr jstring
  | JArr "json list"
  | JObj "(jstring \<times> json) list"

type_synonym object = "(jstring \<times> json) list"

text \<open>
  \<^verbatim>\<open>a === b\<close> for two values that were parsed separately: primitives compare
  by value, arrays and objects by reference, and two parses never share a
  reference.
\<close>

fun strict_equals :: "json \<Rightarrow> json \<Rightarrow> bool" where
  "strict_equals JNull JNull = True"
| "strict_equals (JBool a) (JBool b) = (a = b)"
| "strict_equals (JNum a) (JNum b) = (a = b)"
| "strict_equals (JStr a) (JStr b) = (a = b)"
| "strict_equals _ _ = False"

text \<open>
  White space as \<^verbatim>\<open>trim\<close>, \<^verbatim>\<open>\s\<close> and \<^verbatim>\<open>parseInt\<close> see it, the code points of
  WhiteSpace and LineTerminator in ECMAScript: tab, line feed, vertical tab,
  form feed, carriage return, space, no-break space (U+00A0), U+1680, U+2000
  to U+200A, U+2028, U+2029, U+202F, U+205F, U+3000 and U+FEFF.
\<close>

definition is_space :: "int \<Rightarrow> bool" where
  "is_space u =
     (u \<in> set [0x09, 0x0A, 0x0B, 0x0C, 0x0D, 0x20, 0xA0, 0x1680, 0x2028, 0x2029, 0x202F,
                0x205F, 0x3000, 0xFEFF]
      \<or> (0x2000 \<le> u \<and> u \<le> 0x200A))"

definition trim :: "jstring \<Rightarrow> jstring" where
  "trim s = rev (dropWhile is_space (rev (dropWhile is_space s)))"

text \<open>\<^verbatim>\<open>s.replace(/\s+/g, "")\<close>\<close>

definition strip_spaces :: "jstring \<Rightarrow> jstring" where
  "strip_spaces s = filter (\<lambda>u. \<not> is_space u) s"

text \<open>
  Case conversion.  On ASCII text \<^verbatim>\<open>toUpperCase\<close> and \<^verbatim>\<open>toLowerCase\<close> act on the
  letters \<^verbatim>\<open>a\<close> to \<^verbatim>\<open>z\<close> and \<^verbatim>\<open>A\<close> to \<^verbatim>\<open>Z\<close>.  For text with a code unit outside
  ASCII the result is what the Unicode tables of the engine say; these are not
  part of the repository, and are a parameter of the model.
\<close>

record unicode =
  upper_case :: "jstring \<Rightarrow> jstring"
  lower_case :: "jstring \<Rightarrow> jstring"

definition is_ascii :: "int \<Rightarrow> bool" where
  "is_ascii u = (0 \<le> u \<and> u < 128)"

definition upper_unit :: "int \<Rightarrow> int" where
  "upper_unit u =
     (if char_code CHR ''a'' \<le> u \<and> u \<le> char_code CHR ''z'' then u - 32 else u)"

definition toUpperCase :: "unicode \<Rightarrow> jstring \<Rightarrow> jstring" where
  "toUpperCase uc s = (if list_all is_ascii s then map upper_unit s else upper_case uc s)"

definition lower_unit :: "int \<Rightarrow> int" where
  "lower_unit u =
     (if char_code CHR ''A'' \<le> u \<and> u \<le> char_code CHR ''Z'' then u + 32 else u)"

definition toLowerCase :: "unicode \<Rightarrow> jstring \<Rightarrow> jstring" where
  "toLowerCase uc s = (if list_all is_ascii s then map lower_unit s else lower_case uc s)"

text \<open>\<^verbatim>\<open>letters.indexOf(ch)\<close> for a single code unit: the first position, or -1.\<close>

fun indexOf :: "jstring \<Rightarrow> int \<Rightarrow> int" where
  "indexOf [] c = - 1"
| "indexOf (x # xs) c =
     (if x = c then 0 else (let r = indexOf xs c in if r = - 1 then - 1 else r + 1))"

text \<open>The decimal numeral of a natural number, as a template literal prints it.\<close>

definition digit_unit :: "nat \<Rightarrow> int" where
  "digit_unit d = char_code CHR ''0'' + int d"

fun show_nat :: "nat \<Rightarrow> jstring" where
  "show_nat n = (if n < 10 then [digit_unit n] else show_nat (n div 10) @ [digit_unit (n mod 10)])"

declare show_nat.simps [simp del]

text \<open>
  \<^verbatim>\<open>parseInt(s, 10)\<close>: leading white space, an optional sign, then the longest
  run of digits; \<^verbatim>\<open>NaN\<close> (here \<open>None\<close>) when there is no digit.  An absent field is
  converted to the text \<^verbatim>\<open>undefined\<close>, which has no digit either.  (A run of
  digits too long for a double is read inexactly, or as \<^verbatim>\<open>Infinity\<close>; the range
  checks reject it either way.)
\<close>

definition is_digit :: "int \<Rightarrow> bool" where
  "is_digit u = (char_code CHR ''0'' \<le> u \<and> u \<le> char_code CHR ''9'')"

definition digits_value :: "jstring \<Rightarrow> int" where
  "digits_value ds = foldl (\<lambda>a u. 10 * a + (u - char_code CHR ''0'')) 0 ds"

definition parseInt :: "jstring option \<Rightarrow> int option" where
  "parseInt field =
     (case field of
        None \<Rightarrow> None
      | Some s \<Rightarrow>
          (let s1 = dropWhile is_space s;
               neg = (s1 \<noteq> [] \<and> hd s1 = char_code CHR ''-'');
               s2 = (if s1 \<noteq> [] \<and> (hd s1 = char_code CHR ''-'' \<or> hd s1 = char_code CHR ''+'')
                     then tl s1 else s1);
               ds = takeWhile is_digit s2
           in if ds = [] then None
              else Some (if neg then - digits_value ds else digits_value ds)))"

section \<open>Errors\<close>

text \<open>Every \<^verbatim>\<open>res.status(...).json({error: ...})\<close> of the handlers, with its status.\<close>

datatype error =
    Image_required
  | Subject_level_required
  | Num_questions_range
  | Choices_count_invalid
  | Key_length rat
  | Key_letters jstring
  | Only_image_tests
  | Test_not_found
  | Not_found
  | No_tests_found
  | Missing_fields
  | Failed string

fun status :: "error \<Rightarrow> nat" where
  "status Test_not_found = 404"
| "status Not_found = 404"
| "status No_tests_found = 404"
| "status (Failed _) = 500"
| "status _ = 400"

section \<open>Answer-key codec\<close>

text \<open>\<^verbatim>\<open>"ABCDE".slice(0, c)\<close> for a count that passed the check \<^verbatim>\<open>[4, 5].includes(c)\<close>.\<close>

definition letters_of :: "nat \<Rightarrow> jstring" where
  "letters_of c = take c (text_of ''ABCDE'')"

text \<open>\<^verbatim>\<open>(answer_key || "").trim().toUpperCase().replace(/\s+/g, "")\<close>\<close>

definition normalise_key :: "unicode \<Rightarrow> jstring option \<Rightarrow> jstring" where
  "normalise_key uc answer_key =
     strip_spaces (toUpperCase uc (trim (case answer_key of None \<Rightarrow> [] | Some s \<Rightarrow> s)))"

text \<open>
  The loop \<^verbatim>\<open>for (let i = 0; i < n; i++)\<close> of the upload and edit handlers, which
  fills \<^verbatim>\<open>map\<close>.  Reading \<^verbatim>\<open>keyStr[i]\<close> past the end gives \<^verbatim>\<open>undefined\<close>, which
  \<^verbatim>\<open>indexOf\<close> does not find.
\<close>

function key_loop :: "jstring \<Rightarrow> jstring \<Rightarrow> rat \<Rightarrow> nat \<Rightarrow> object \<Rightarrow> error + object" where
  "key_loop letters keyStr n i m =
     (if of_nat i < n then
        (let idx = (if i < length keyStr then indexOf letters (keyStr ! i) else - 1)
         in if idx = - 1 then Inl (Key_letters letters)
            else key_loop letters keyStr n (i + 1)
                   (AList.update (text_of ''q'' @ show_nat (i + 1)) (JNum (of_int idx)) m))
      else Inr m)"
  by pat_completeness auto
termination
proof (relation "measure (\<lambda>(letters, keyStr, n, i, m). nat \<lceil>n\<rceil> - i)")
  show "wf (measure (\<lambda>(letters, keyStr, n, i, m). nat \<lceil>n\<rceil> - i))"
    by simp
next
  fix letters keyStr :: jstring and n :: rat and i :: nat and m :: object and idx :: int
  assume "of_nat i < n"
  then have "int i < \<lceil>n\<rceil>"
    by (simp add: less_ceiling_iff)
  then show "((letters, keyStr, n, i + 1,
                AList.update (text_of ''q'' @ show_nat (i + 1)) (JNum (of_int idx)) m),
               (letters, keyStr, n, i, m))
             \<in> measure (\<lambda>(letters, keyStr, n, i, m). nat \<lceil>n\<rceil> - i)"
    by simp
qed

declare key_loop.simps [simp del]

text \<open>
  Normalisation, the length check against the declared question count, then
  the loop (server.js lines 273 to 283, and again 351 to 360).
\<close>

definition encode_answer_key ::
  "unicode \<Rightarrow> jstring \<Rightarrow> rat \<Rightarrow> jstring option \<Rightarrow> error + object" where
  "encode_answer_key uc letters n answer_key =
     (let keyStr = normalise_key uc answer_key
      in if of_nat (length keyStr) \<noteq> n then Inl (Key_length n)
         else key_loop letters keyStr n 0 [])"

section \<open>Stored data\<close>

text \<open>
  The \<^verbatim>\<open>questions\<close> document of a test, with the fields the handlers read and
  write; a field that is absent or \<^verbatim>\<open>null\<close> is \<open>None\<close>.
\<close>

record questions =
  q_type :: jstring
  image_url :: "jstring option"
  num_questions :: "rat option"
  choices_count :: "rat option"
  choices :: "jstring list option"

text \<open>
  A row of \<^verbatim>\<open>tests\<close>.  The answer key is the JSON object the upload and edit
  handlers store; an object is truthy, so \<^verbatim>\<open>answer_key || {}\<close> is the key itself.
\<close>

record test =
  t_id :: jstring
  t_subject :: jstring
  t_level :: jstring
  t_title :: jstring
  t_questions :: questions
  t_answer_key :: object
  t_created_at :: nat

text \<open>A row of \<^verbatim>\<open>submissions\<close>; \<open>None\<close> in \<open>s_test_id\<close> is SQL \<^verbatim>\<open>NULL\<close>.\<close>

record submission =
  s_id :: jstring
  s_test_id :: "jstring option"
  s_name :: jstring
  s_grade :: jstring
  s_email :: jstring
  s_phone :: jstring
  s_subject :: jstring
  s_level :: jstring
  s_answers :: object
  s_score :: int
  s_submitted_at :: nat

text \<open>
  What the table definition of \<^verbatim>\<open>submissions\<close> says about \<^verbatim>\<open>test_id\<close>: whether it is
  \<^verbatim>\<open>NOT NULL\<close>, and the action of its foreign key when the test is deleted.
\<close>

datatype fk_action = Cascade | Set_null | No_action

record schema =
  test_id_not_null :: bool
  on_delete :: fk_action

text \<open>
  sql/schema.sql, line 15:
  \<^verbatim>\<open>test_id uuid NOT NULL REFERENCES tests(id) ON DELETE CASCADE\<close>
\<close>

definition schema_sql :: schema where
  "schema_sql = \<lparr>test_id_not_null = True, on_delete = Cascade\<rparr>"

section \<open>The world of a request\<close>

text \<open>
  The two tables, the file system, and the outcomes of the coming
  \<^verbatim>\<open>pool.query\<close> calls (\<open>True\<close>: the call rejects; none left: it succeeds).  A path
  is its list of segments from the root.  \<open>files\<close> are regular files, \<open>dirs\<close>
  directories, \<open>frozen\<close> the files whose \<^verbatim>\<open>unlinkSync\<close> throws; \<open>warnings\<close> is what
  \<^verbatim>\<open>console.warn\<close> has printed.
\<close>

record world =
  tests :: "test list"
  submissions :: "submission list"
  files :: "jstring list set"
  dirs :: "jstring list set"
  frozen :: "jstring list set"
  warnings :: "string list"
  outages :: "bool list"

definition pool_query :: "world \<Rightarrow> bool \<times> world" where
  "pool_query w =
     (case outages w of
        [] \<Rightarrow> (True, w)
      | b # bs \<Rightarrow> (\<not> b, w\<lparr>outages := bs\<rparr>))"

section \<open>Deleting an asset file\<close>

text \<open>\<^verbatim>\<open>String(relativeUrl).replace(/^\/uploads\//, "")\<close>\<close>

definition strip_uploads :: "jstring \<Rightarrow> jstring" where
  "strip_uploads url = (if prefix (text_of ''/uploads/'') url then drop 9 url else url)"

text \<open>\<^verbatim>\<open>s.includes(t)\<close>\<close>

fun includes_str :: "jstring \<Rightarrow> jstring \<Rightarrow> bool" where
  "includes_str [] t = (t = [])"
| "includes_str (c # cs) t = (prefix t (c # cs) \<or> includes_str cs t)"

text \<open>
  \<^verbatim>\<open>path.join(uploadDir, filename)\<close> on POSIX: the segments of both, split at
  \<^verbatim>\<open>/\<close>, normalised (an empty segment and \<^verbatim>\<open>.\<close> are dropped, \<^verbatim>\<open>..\<close> removes the
  segment before it and is dropped at the root); a trailing \<^verbatim>\<open>/\<close> is kept.
\<close>

fun split_on :: "int \<Rightarrow> jstring \<Rightarrow> jstring list" where
  "split_on d [] = [[]]"
| "split_on d (c # cs) =
     (if c = d then [] # split_on d cs
      else (case split_on d cs of
              [] \<Rightarrow> [[c]]
            | x # xs \<Rightarrow> (c # x) # xs))"

fun normalize_segs :: "jstring list \<Rightarrow> jstring list \<Rightarrow> jstring list" where
  "normalize_segs acc [] = acc"
| "normalize_segs acc (s # ss) =
     (if s = [] \<or> s = text_of ''.'' then normalize_segs acc ss
      else if s = text_of ''..'' then normalize_segs (butlast acc) ss
      else normalize_segs (acc @ [s]) ss)"

definition path_join :: "jstring list \<Rightarrow> jstring \<Rightarrow> jstring list \<times> bool" where
  "path_join dir name =
     (normalize_segs [] (dir @ split_on (char_code CHR ''/'') name), name \<noteq> [] \<and> last name = char_code CHR ''/'')"

text \<open>
  The \<^verbatim>\<open>try\<close> block of \<^verbatim>\<open>tryDeleteFile\<close>; \<open>Inl\<close> is a thrown exception.
  \<^verbatim>\<open>existsSync\<close> is true of a directory, and of a regular file named without a
  trailing \<^verbatim>\<open>/\<close>; \<^verbatim>\<open>unlinkSync\<close> throws on a directory and on a frozen file.
\<close>

definition delete_file_body :: "jstring list \<Rightarrow> world \<Rightarrow> jstring option \<Rightarrow> string + world" where
  "delete_file_body uploadDir w relativeUrl =
     (case relativeUrl of
        None \<Rightarrow> Inr w
      | Some url \<Rightarrow>
          if url = [] then Inr w
          else
            (let filename = strip_uploads url
             in if filename = [] \<or> includes_str filename (text_of ''..'') then Inr w
                else
                  (case path_join uploadDir filename of
                     (full, trailing) \<Rightarrow>
                       if full \<in> dirs w \<or> (full \<in> files w \<and> \<not> trailing) then
                         (if full \<in> dirs w \<or> full \<in> frozen w then Inl ''unlink failed''
                          else Inr (w\<lparr>files := files w - {full}\<rparr>))
                       else Inr w)))"

text \<open>The whole function: the \<^verbatim>\<open>catch\<close> clause logs the exception and returns.\<close>

definition tryDeleteFile :: "jstring list \<Rightarrow> world \<Rightarrow> jstring option \<Rightarrow> string + world" where
  "tryDeleteFile uploadDir w relativeUrl =
     (case delete_file_body uploadDir w relativeUrl of
        Inl e \<Rightarrow> Inr (w\<lparr>warnings := warnings w @ [e]\<rparr>)
      | Inr w' \<Rightarrow> Inr w')"

section \<open>Names of stored files\<close>

text \<open>
  \<^verbatim>\<open>safeExt\<close>, given \<^verbatim>\<open>path.extname(originalname || "")\<close>: the extension in lower
  case when it is not empty and has at most six characters, \<^verbatim>\<open>.png\<close> otherwise.
\<close>

definition safeExt :: "unicode \<Rightarrow> jstring \<Rightarrow> jstring" where
  "safeExt uc extname =
     (let ext = toLowerCase uc extname
      in if ext \<noteq> [] \<and> length ext \<le> 6 then ext else text_of ''.png'')"

text \<open>
  The name the disk storage gives an upload, from \<^verbatim>\<open>Date.now()\<close> and the digits
  of \<^verbatim>\<open>Math.random().toString(16).slice(2)\<close>.
\<close>

definition stored_name :: "unicode \<Rightarrow> nat \<Rightarrow> jstring \<Rightarrow> jstring \<Rightarrow> jstring" where
  "stored_name uc now hex extname = show_nat now @ text_of ''-'' @ hex @ safeExt uc extname"

text \<open>
  What \<^verbatim>\<open>path.extname\<close> returns: nothing, or a dot followed by characters that
  are neither a dot nor a separator.
\<close>

definition is_extname :: "jstring \<Rightarrow> bool" where
  "is_extname e =
     (e = [] \<or> (hd e = char_code CHR ''.'' \<and> char_code CHR ''.'' \<notin> set (tl e) \<and> char_code CHR ''/'' \<notin> set e))"

section \<open>Request fields\<close>

text \<open>A text field that is absent (\<open>None\<close>) or empty is falsy.\<close>

definition falsy :: "jstring option \<Rightarrow> bool" where
  "falsy field = (field = None \<or> field = Some [])"

text \<open>\<^verbatim>\<open>v || null\<close> and \<^verbatim>\<open>v || ""\<close> for a text field\<close>

definition or_null :: "jstring option \<Rightarrow> jstring option" where
  "or_null v = (if v = Some [] then None else v)"

definition or_empty :: "jstring option \<Rightarrow> jstring" where
  "or_empty v = (case v of None \<Rightarrow> [] | Some s \<Rightarrow> s)"

text \<open>
  The result of \<^verbatim>\<open>Number(v)\<close>: a finite number, or one of \<^verbatim>\<open>NaN\<close>, \<^verbatim>\<open>Infinity\<close> and
  \<^verbatim>\<open>-Infinity\<close>, which \<^verbatim>\<open>Number.isFinite\<close> and \<^verbatim>\<open>[4, 5].includes\<close> all reject.
\<close>

datatype number = Finite rat | Not_finite

section \<open>Upload of a test\<close>

text \<open>
  The multipart fields of \<^verbatim>\<open>POST /admin/tests/upload\<close>; \<open>u_file\<close> is
  \<^verbatim>\<open>req.file.filename\<close>, the name under which the image was stored.
\<close>

record upload_req =
  u_file :: "jstring option"
  u_subject :: "jstring option"
  u_level :: "jstring option"
  u_title :: "jstring option"
  u_num_questions :: "jstring option"
  u_choices_count :: "jstring option"
  u_answer_key :: "jstring option"

text \<open>
  The \<^verbatim>\<open>INSERT INTO tests\<close>; the store supplies the id and the creation time, and
  rejects an id that is taken (primary key).
\<close>

definition insert_test :: "world \<Rightarrow> test \<Rightarrow> (error + test) \<times> world" where
  "insert_test w row =
     (case pool_query w of
        (False, w1) \<Rightarrow> (Inl (Failed ''upload failed''), w1)
      | (True, w1) \<Rightarrow>
          if t_id row \<in> set (map t_id (tests w1)) then (Inl (Failed ''upload failed''), w1)
          else (Inr row, w1\<lparr>tests := tests w1 @ [row]\<rparr>))"

definition upload_test ::
  "unicode \<Rightarrow> jstring \<Rightarrow> nat \<Rightarrow> world \<Rightarrow> upload_req \<Rightarrow> (error + test) \<times> world" where
  "upload_test uc new_id now w req =
     (case u_file req of
        None \<Rightarrow> (Inl Image_required, w)
      | Some filename \<Rightarrow>
          if falsy (u_subject req) \<or> falsy (u_level req) then (Inl Subject_level_required, w)
          else
            (case parseInt (u_num_questions req) of
               None \<Rightarrow> (Inl Num_questions_range, w)
             | Some n \<Rightarrow>
                 if n < 1 \<or> n > 200 then (Inl Num_questions_range, w)
                 else
                   (let c = (case parseInt (u_choices_count req) of
                               None \<Rightarrow> 5
                             | Some c \<Rightarrow> if c = 0 then 5 else c)
                    in if c \<noteq> 4 \<and> c \<noteq> 5 then (Inl Choices_count_invalid, w)
                       else
                         (let letters = letters_of (nat c)
                          in case encode_answer_key uc letters (of_int n) (u_answer_key req) of
                               Inl e \<Rightarrow> (Inl e, w)
                             | Inr m \<Rightarrow>
                                 insert_test w
                                   \<lparr>t_id = new_id,
                                    t_subject = or_empty (u_subject req),
                                    t_level = or_empty (u_level req),
                                    t_title =
                                      (if falsy (u_title req)
                                       then toUpperCase uc (or_empty (u_subject req)) @ text_of '' ''
                                              @ or_empty (u_level req) @ text_of '' Test''
                                       else or_empty (u_title req)),
                                    t_questions =
                                      \<lparr>q_type = text_of ''image'',
                                       image_url = Some (text_of ''/uploads/'' @ filename),
                                       num_questions = Some (of_int n),
                                       choices_count = Some (of_int c),
                                       choices = Some (map (\<lambda>ch. [ch]) letters)\<rparr>,
                                    t_answer_key = m,
                                    t_created_at = now\<rparr>))))"

section \<open>Editing a test\<close>

text \<open>
  The fields of \<^verbatim>\<open>PUT /admin/tests/:id\<close>.  \<open>e_title\<close>, \<open>e_subject\<close> and \<open>e_level\<close> are
  \<open>None\<close> when \<^verbatim>\<open>undefined\<close> or \<^verbatim>\<open>null\<close>; \<open>e_num_questions\<close> and \<open>e_choices_count\<close> are
  \<open>None\<close> when the field is falsy and \<^verbatim>\<open>Number(field)\<close> otherwise; \<open>e_answer_key\<close> is
  \<open>None\<close> when \<^verbatim>\<open>typeof answer_key\<close> is \<^verbatim>\<open>"undefined"\<close>.
\<close>

record edit_req =
  e_title :: "jstring option"
  e_subject :: "jstring option"
  e_level :: "jstring option"
  e_num_questions :: "number option"
  e_choices_count :: "number option"
  e_answer_key :: "jstring option"
  e_remove_image :: "jstring option"
  e_file :: "jstring option"

text \<open>\<^verbatim>\<open>Number(q.choices_count ?? (q.choices?.length ?? 5)) || 5\<close>\<close>

definition current_choices_count :: "questions \<Rightarrow> rat" where
  "current_choices_count q =
     (let v = (case choices_count q of
                 Some x \<Rightarrow> x
               | None \<Rightarrow> (case choices q of Some cs \<Rightarrow> of_nat (length cs) | None \<Rightarrow> 5))
      in if v = 0 then 5 else v)"

text \<open>Lines 349 to 361: the stored key, replaced when the request carries one.\<close>

definition edit_answer_map ::
  "unicode \<Rightarrow> test \<Rightarrow> jstring \<Rightarrow> rat \<Rightarrow> jstring option \<Rightarrow> error + object" where
  "edit_answer_map uc existing letters newN answer_key =
     (case answer_key of
        None \<Rightarrow> Inr (t_answer_key existing)
      | Some s \<Rightarrow> encode_answer_key uc letters newN (Some s))"

text \<open>Lines 363 to 374: removal and replacement of the image.\<close>

definition edit_image ::
  "jstring list \<Rightarrow> world \<Rightarrow> jstring option \<Rightarrow> bool \<Rightarrow> jstring option
     \<Rightarrow> string + (jstring option \<times> world)" where
  "edit_image uploadDir w imageUrl wantsRemove file =
     (case (if wantsRemove \<and> imageUrl \<noteq> None
            then (case tryDeleteFile uploadDir w imageUrl of
                    Inl e \<Rightarrow> Inl e
                  | Inr w1 \<Rightarrow> Inr (None, w1))
            else Inr (imageUrl, w)) of
        Inl e \<Rightarrow> Inl e
      | Inr (imageUrl1, w1) \<Rightarrow>
          (case file of
             None \<Rightarrow> Inr (imageUrl1, w1)
           | Some filename \<Rightarrow>
               (case (if imageUrl1 \<noteq> None then tryDeleteFile uploadDir w1 imageUrl1 else Inr w1) of
                  Inl e \<Rightarrow> Inl e
                | Inr w2 \<Rightarrow> Inr (Some (text_of ''/uploads/'' @ filename), w2))))"

text \<open>\<^verbatim>\<open>UPDATE tests SET ... WHERE id=$n RETURNING ...\<close>: the rows it returns.\<close>

definition update_tests :: "world \<Rightarrow> jstring \<Rightarrow> (test \<Rightarrow> test) \<Rightarrow> test list \<times> world" where
  "update_tests w tid f =
     (let ts = map (\<lambda>t. if t_id t = tid then f t else t) (tests w)
      in (filter (\<lambda>t. t_id t = tid) ts, w\<lparr>tests := ts\<rparr>))"

text \<open>Lines 363 to 399: the image, then the \<^verbatim>\<open>UPDATE\<close> and the response \<^verbatim>\<open>rows[0]\<close>.\<close>

definition edit_store ::
  "unicode \<Rightarrow> jstring list \<Rightarrow> world \<Rightarrow> jstring \<Rightarrow> edit_req \<Rightarrow> test \<Rightarrow> nat \<Rightarrow> rat \<Rightarrow> object
     \<Rightarrow> (error + test option) \<times> world" where
  "edit_store uc uploadDir w1 tid req existing c n newAnswerMap =
     (case edit_image uploadDir w1 (or_null (image_url (t_questions existing)))
             (toLowerCase uc (or_empty (e_remove_image req)) = text_of ''true'') (e_file req) of
        Inl e \<Rightarrow> (Inl (Failed ''failed to edit test''), w1)
      | Inr (imageUrl, w2) \<Rightarrow>
          (case pool_query w2 of
             (False, w3) \<Rightarrow> (Inl (Failed ''failed to edit test''), w3)
           | (True, w3) \<Rightarrow>
               (case update_tests w3 tid
                       (\<lambda>t. t\<lparr>t_subject := (case e_subject req of Some x \<Rightarrow> x | None \<Rightarrow> t_subject existing),
                              t_level := (case e_level req of Some x \<Rightarrow> x | None \<Rightarrow> t_level existing),
                              t_title := (case e_title req of Some x \<Rightarrow> x | None \<Rightarrow> t_title existing),
                              t_questions :=
                                (t_questions existing)
                                  \<lparr>num_questions := Some n,
                                   choices_count := Some (of_nat c),
                                   choices := Some (map (\<lambda>ch. [ch]) (letters_of c)),
                                   image_url := imageUrl\<rparr>,
                              t_answer_key := newAnswerMap\<rparr>) of
                  (rows, w4) \<Rightarrow> (Inr (case rows of [] \<Rightarrow> None | row # _ \<Rightarrow> Some row), w4))))"

text \<open>Lines 343 to 347: the new question count and its range check.\<close>

definition new_question_count :: "questions \<Rightarrow> edit_req \<Rightarrow> error + rat" where
  "new_question_count q req =
     (let currentN = (case num_questions q of Some x \<Rightarrow> x | None \<Rightarrow> 0);
          newN = (case e_num_questions req of Some x \<Rightarrow> x | None \<Rightarrow> Finite currentN)
      in case newN of
           Not_finite \<Rightarrow> Inl Num_questions_range
         | Finite n \<Rightarrow> if n < 1 \<or> n > 200 then Inl Num_questions_range else Inr n)"

text \<open>Lines 336 to 340: the new choice count, 4 or 5.\<close>

definition new_choices_count :: "questions \<Rightarrow> edit_req \<Rightarrow> error + nat" where
  "new_choices_count q req =
     (let newChoicesCount =
            (case e_choices_count req of
               Some x \<Rightarrow> x
             | None \<Rightarrow> Finite (current_choices_count q))
      in if newChoicesCount = Finite 4 then Inr 4
         else if newChoicesCount = Finite 5 then Inr 5
         else Inl Choices_count_invalid)"

definition edit_test ::
  "unicode \<Rightarrow> jstring list \<Rightarrow> world \<Rightarrow> jstring \<Rightarrow> edit_req \<Rightarrow> (error + test option) \<times> world" where
  "edit_test uc uploadDir w tid req =
     (case pool_query w of
        (False, w1) \<Rightarrow> (Inl (Failed ''failed to edit test''), w1)
      | (True, w1) \<Rightarrow>
          (case find (\<lambda>t. t_id t = tid) (tests w1) of
             None \<Rightarrow> (Inl Test_not_found, w1)
           | Some existing \<Rightarrow>
               if q_type (t_questions existing) \<noteq> text_of ''image'' then (Inl Only_image_tests, w1)
               else
                 (case new_choices_count (t_questions existing) req of
                    Inl e \<Rightarrow> (Inl e, w1)
                  | Inr c \<Rightarrow>
                      (case new_question_count (t_questions existing) req of
                         Inl e \<Rightarrow> (Inl e, w1)
                       | Inr n \<Rightarrow>
                           (case edit_answer_map uc existing (letters_of c) n (e_answer_key req) of
                              Inl e \<Rightarrow> (Inl e, w1)
                            | Inr newAnswerMap \<Rightarrow>
                                edit_store uc uploadDir w1 tid req existing c n newAnswerMap)))))"

section \<open>Replacing the image only\<close>

definition replace_image ::
  "jstring list \<Rightarrow> world \<Rightarrow> jstring \<Rightarrow> jstring option \<Rightarrow> (error + jstring \<times> jstring) \<times> world" where
  "replace_image uploadDir w tid file =
     (case file of
        None \<Rightarrow> (Inl Image_required, w)
      | Some filename \<Rightarrow>
          (case pool_query w of
             (False, w1) \<Rightarrow> (Inl (Failed ''failed to replace image''), w1)
           | (True, w1) \<Rightarrow>
               (case find (\<lambda>t. t_id t = tid) (tests w1) of
                  None \<Rightarrow> (Inl Test_not_found, w1)
                | Some existing \<Rightarrow>
                    (let q = t_questions existing;
                         oldUrl = or_null (image_url q);
                         newUrl = text_of ''/uploads/'' @ filename
                     in case pool_query w1 of
                          (False, w2) \<Rightarrow> (Inl (Failed ''failed to replace image''), w2)
                        | (True, w2) \<Rightarrow>
                            (case update_tests w2 tid (\<lambda>t. t\<lparr>t_questions := q\<lparr>image_url := Some newUrl\<rparr>\<rparr>) of
                               (rows, w3) \<Rightarrow>
                                 (case (if oldUrl \<noteq> None then tryDeleteFile uploadDir w3 oldUrl
                                        else Inr w3) of
                                    Inl e \<Rightarrow> (Inl (Failed ''failed to replace image''), w3)
                                  | Inr w4 \<Rightarrow>
                                      (case rows of
                                         [] \<Rightarrow> (Inl (Failed ''failed to replace image''), w4)
                                       | row # _ \<Rightarrow>
                                           (Inr (t_id row,
                                                 (case or_null (image_url (t_questions row)) of
                                                    None \<Rightarrow> newUrl
                                                  | Some u \<Rightarrow> u)), w4))))))))"

section \<open>Deleting a test\<close>

text \<open>
  \<^verbatim>\<open>UPDATE submissions SET test_id = NULL WHERE test_id = $1\<close>: the statement is
  rejected when it would store \<^verbatim>\<open>NULL\<close> in a \<^verbatim>\<open>NOT NULL\<close> column.  \<open>Some\<close> is the
  exception thrown.
\<close>

definition detach_submissions :: "schema \<Rightarrow> world \<Rightarrow> jstring \<Rightarrow> string option \<times> world" where
  "detach_submissions sch w tid =
     (case pool_query w of
        (False, w1) \<Rightarrow> (Some ''query failed'', w1)
      | (True, w1) \<Rightarrow>
          if test_id_not_null sch \<and> list_ex (\<lambda>s. s_test_id s = Some tid) (submissions w1)
          then (Some ''null value in column test_id violates not-null constraint'', w1)
          else (None,
                w1\<lparr>submissions :=
                      map (\<lambda>s. if s_test_id s = Some tid then s\<lparr>s_test_id := None\<rparr> else s)
                        (submissions w1)\<rparr>))"

text \<open>
  \<^verbatim>\<open>DELETE FROM tests WHERE id=$1 RETURNING id\<close>, with the foreign key's action on
  the submissions that still reference the test: the exception thrown, or the
  ids returned.
\<close>

definition delete_tests_row :: "schema \<Rightarrow> world \<Rightarrow> jstring \<Rightarrow> (string + jstring list) \<times> world" where
  "delete_tests_row sch w tid =
     (case pool_query w of
        (False, w1) \<Rightarrow> (Inl ''query failed'', w1)
      | (True, w1) \<Rightarrow>
          (let hit = list_ex (\<lambda>t. t_id t = tid) (tests w1);
               refs = list_ex (\<lambda>s. s_test_id s = Some tid) (submissions w1);
               rows = map t_id (filter (\<lambda>t. t_id t = tid) (tests w1));
               rest = filter (\<lambda>t. t_id t \<noteq> tid) (tests w1)
           in if \<not> (hit \<and> refs) then (Inr rows, w1\<lparr>tests := rest\<rparr>)
              else
                (case on_delete sch of
                   Cascade \<Rightarrow>
                     (Inr rows,
                      w1\<lparr>tests := rest,
                         submissions := filter (\<lambda>s. s_test_id s \<noteq> Some tid) (submissions w1)\<rparr>)
                 | Set_null \<Rightarrow>
                     if test_id_not_null sch
                     then (Inl ''null value in column test_id violates not-null constraint'', w1)
                     else
                       (Inr rows,
                        w1\<lparr>tests := rest,
                           submissions :=
                             map (\<lambda>s. if s_test_id s = Some tid then s\<lparr>s_test_id := None\<rparr> else s)
                               (submissions w1)\<rparr>)
                 | No_action \<Rightarrow>
                     (Inl ''update or delete on table tests violates foreign key constraint'', w1))))"

definition delete_test :: "schema \<Rightarrow> jstring list \<Rightarrow> world \<Rightarrow> jstring \<Rightarrow> (error + unit) \<times> world" where
  "delete_test sch uploadDir w tid =
     (case pool_query w of
        (False, w1) \<Rightarrow> (Inl (Failed ''failed to delete test''), w1)
      | (True, w1) \<Rightarrow>
          (case find (\<lambda>t. t_id t = tid) (tests w1) of
             None \<Rightarrow> (Inl Test_not_found, w1)
           | Some before \<Rightarrow>
               (let imageUrl = or_null (image_url (t_questions before))
                in case detach_submissions sch w1 tid of
                     (Some e, w2) \<Rightarrow> (Inl (Failed ''failed to delete test''), w2)
                   | (None, w2) \<Rightarrow>
                       (case delete_tests_row sch w2 tid of
                          (Inl e, w3) \<Rightarrow> (Inl (Failed ''failed to delete test''), w3)
                        | (Inr [], w3) \<Rightarrow> (Inl Test_not_found, w3)
                        | (Inr (r # rs), w3) \<Rightarrow>
                            (case (if imageUrl \<noteq> None then tryDeleteFile uploadDir w3 imageUrl
                                   else Inr w3) of
                               Inl e \<Rightarrow> (Inl (Failed ''failed to delete test''), w3)
                             | Inr w4 \<Rightarrow> (Inr (), w4))))))"

section \<open>Submission detail\<close>

text \<open>
  The response of \<^verbatim>\<open>GET /admin/submissions/:id\<close>: the row, and the title,
  questions and answer key of its test through the \<^verbatim>\<open>LEFT JOIN\<close>.
\<close>

record detail =
  d_row :: submission
  d_title :: jstring
  d_questions :: "questions option"
  d_answer_key :: "object option"

definition joined_test :: "world \<Rightarrow> submission \<Rightarrow> test option" where
  "joined_test w s =
     (case s_test_id s of
        None \<Rightarrow> None
      | Some tid \<Rightarrow> find (\<lambda>t. t_id t = tid) (tests w))"

definition get_submission :: "world \<Rightarrow> jstring \<Rightarrow> (error + detail) \<times> world" where
  "get_submission w sid =
     (case pool_query w of
        (False, w1) \<Rightarrow> (Inl (Failed ''failed to load submission''), w1)
      | (True, w1) \<Rightarrow>
          (case find (\<lambda>s. s_id s = sid) (submissions w1) of
             None \<Rightarrow> (Inl Not_found, w1)
           | Some row \<Rightarrow>
               (Inr \<lparr>d_row = row,
                     d_title =
                       (case joined_test w1 row of
                          None \<Rightarrow> text_of ''(deleted test)''
                        | Some t \<Rightarrow> if t_title t = [] then (text_of ''(deleted test)'') else t_title t),
                     d_questions = map_option t_questions (joined_test w1 row),
                     d_answer_key = map_option t_answer_key (joined_test w1 row)\<rparr>,
                w1)))"

section \<open>Double-precision arithmetic\<close>

text \<open>
  A JavaScript number is an IEEE 754 binary64 value; a finite one is modelled
  by the rational it denotes.  Every arithmetic operation returns the exact
  result rounded to the nearest binary64 value, ties to the even significand.

  \<open>bitlen n\<close> is the number of binary digits of a positive integer, and
  \<open>binade x\<close>, for positive \<open>x\<close>, the exponent \<open>e\<close> with \<open>2^e \<le> x < 2^(e+1)\<close>.
\<close>

function bitlen :: "int \<Rightarrow> int" where
  "bitlen n = (if n \<le> 0 then 0 else 1 + bitlen (n div 2))"
  by pat_completeness auto
termination
  by (relation "measure nat") auto

declare bitlen.simps [simp del]

definition binade :: "rat \<Rightarrow> int" where
  "binade x = (if 1 \<le> x then bitlen \<lfloor>x\<rfloor> - 1 else - bitlen (\<lceil>1 / x\<rceil> - 1))"

definition round_half_even :: "rat \<Rightarrow> int" where
  "round_half_even x =
     (let f = \<lfloor>x\<rfloor>; r = x - of_int f
      in if r < 1 / 2 then f
         else if 1 / 2 < r then f + 1
         else if even f then f else f + 1)"

text \<open>
  Rounding to binary64: 53 significant bits, and no bit below \<open>2^-1074\<close>
  (subnormal numbers).  Results of magnitude \<open>2^1024\<close> and beyond, which become
  \<^verbatim>\<open>Infinity\<close>, do not occur below: no operand exceeds 100.
\<close>

definition fl :: "rat \<Rightarrow> rat" where
  "fl x =
     (if x = 0 then 0
      else (let q = max (binade \<bar>x\<bar> - 52) (- 1074)
            in sgn x * of_int (round_half_even (\<bar>x\<bar> / 2 powi q)) * 2 powi q))"

text \<open>\<^verbatim>\<open>Math.round\<close>: the nearest integer, a tie going up.\<close>

definition math_round :: "rat \<Rightarrow> int" where
  "math_round x = \<lfloor>x + 1 / 2\<rfloor>"

section \<open>Grading a submission\<close>

text \<open>
  \<^verbatim>\<open>answers && answers[qid] === correctIdx\<close>, for \<open>answers\<close> absent (\<open>None\<close>) or a
  JSON object.
\<close>

definition answered :: "object option \<Rightarrow> jstring \<Rightarrow> json \<Rightarrow> bool" where
  "answered answers qid correctIdx =
     (case answers of
        None \<Rightarrow> False
      | Some a \<Rightarrow>
          (case map_of a qid of
             None \<Rightarrow> False
           | Some v \<Rightarrow> strict_equals v correctIdx))"

text \<open>
  The loop over \<^verbatim>\<open>Object.entries(answerKey)\<close> with its two counters (which stay
  far below \<open>2^53\<close>, where a double counts exactly).
\<close>

fun grade_loop :: "object \<Rightarrow> object option \<Rightarrow> nat \<Rightarrow> nat \<Rightarrow> nat \<times> nat" where
  "grade_loop [] answers correct total' = (correct, total')"
| "grade_loop ((qid, correctIdx) # rest) answers correct total' =
     grade_loop rest answers
       (if answered answers qid correctIdx then correct + 1 else correct) (total' + 1)"

text \<open>\<^verbatim>\<open>Math.round((correct / Math.max(total, 1)) * 100)\<close>\<close>

definition score_of :: "nat \<Rightarrow> nat \<Rightarrow> int" where
  "score_of correct total' =
     math_round (fl (fl (of_nat correct / of_nat (max total' 1)) * 100))"

definition grade :: "object \<Rightarrow> object option \<Rightarrow> int" where
  "grade answerKey answers =
     (case grade_loop answerKey answers 0 0 of
        (correct, total') \<Rightarrow> score_of correct total')"

text \<open>The body of \<^verbatim>\<open>POST /submissions\<close>; \<open>r_answers\<close> is \<open>None\<close> when absent or \<^verbatim>\<open>null\<close>.\<close>

record submit_req =
  r_test_id :: "jstring option"
  r_name :: "jstring option"
  r_grade :: "jstring option"
  r_email :: "jstring option"
  r_phone :: "jstring option"
  r_subject :: "jstring option"
  r_level :: "jstring option"
  r_answers :: "object option"

text \<open>
  The \<^verbatim>\<open>INSERT INTO submissions\<close>; the store supplies the id and the time, and
  rejects an id that is taken.
\<close>

definition insert_submission :: "world \<Rightarrow> submission \<Rightarrow> (error + jstring \<times> int \<times> nat) \<times> world" where
  "insert_submission w row =
     (case pool_query w of
        (False, w1) \<Rightarrow> (Inl (Failed ''submission failed''), w1)
      | (True, w1) \<Rightarrow>
          if s_id row \<in> set (map s_id (submissions w1)) then (Inl (Failed ''submission failed''), w1)
          else ((Inr (s_id row, s_score row, s_submitted_at row)),
                w1\<lparr>submissions := submissions w1 @ [row]\<rparr>))"

definition submit ::
  "jstring \<Rightarrow> nat \<Rightarrow> world \<Rightarrow> submit_req \<Rightarrow> (error + jstring \<times> int \<times> nat) \<times> world" where
  "submit new_id now w req =
     (if falsy (r_test_id req) \<or> falsy (r_name req) \<or> falsy (r_grade req)
         \<or> falsy (r_email req) \<or> falsy (r_phone req)
      then (Inl Missing_fields, w)
      else
        (case pool_query w of
           (False, w1) \<Rightarrow> (Inl (Failed ''submission failed''), w1)
         | (True, w1) \<Rightarrow>
             (case find (\<lambda>t. t_id t = or_empty (r_test_id req)) (tests w1) of
                None \<Rightarrow> (Inl Test_not_found, w1)
              | Some t \<Rightarrow>
                  insert_submission w1
                    \<lparr>s_id = new_id,
                     s_test_id = r_test_id req,
                     s_name = or_empty (r_name req),
                     s_grade = or_empty (r_grade req),
                     s_email = or_empty (r_email req),
                     s_phone = or_empty (r_phone req),
                     s_subject = or_empty (r_subject req),
                     s_level = or_empty (r_level req),
                     s_answers = (case r_answers req of None \<Rightarrow> [] | Some a \<Rightarrow> a),
                     s_score = grade (t_answer_key t) (r_answers req),
                     s_submitted_at = now\<rparr>)))"

section \<open>Selecting a test for a test-taker\<close>

text \<open>
  The query string of \<^verbatim>\<open>GET /tests\<close> and the row it answers with: the columns of
  the \<^verbatim>\<open>SELECT\<close> list, which leaves the answer key out.
\<close>

record tests_query =
  g_subject :: "jstring option"
  g_level :: "jstring option"
  g_pick :: "jstring option"

record test_view =
  v_id :: jstring
  v_title :: jstring
  v_subject :: jstring
  v_level :: jstring
  v_questions :: questions
  v_created_at :: nat

definition view_of :: "test \<Rightarrow> test_view" where
  "view_of t =
     \<lparr>v_id = t_id t, v_title = t_title t, v_subject = t_subject t, v_level = t_level t,
      v_questions = t_questions t, v_created_at = t_created_at t\<rparr>"

text \<open>
  \<^verbatim>\<open>ORDER BY random()\<close> draws a number for every matching row; \<open>rnd\<close> gives the draw
  of a row, by its id.  The sort is stable, so rows that tie come in table
  order; the store promises no order among them.
\<close>

definition get_tests :: "(jstring \<Rightarrow> rat) \<Rightarrow> world \<Rightarrow> tests_query \<Rightarrow> (error + test_view) \<times> world" where
  "get_tests rnd w query =
     (let subject = trim (or_empty (g_subject query));
          level = trim (or_empty (g_level query));
          pick = trim (if falsy (g_pick query) then (text_of ''random'') else or_empty (g_pick query))
      in if subject = [] \<or> level = [] then (Inl Subject_level_required, w)
         else
           (case pool_query w of
              (False, w1) \<Rightarrow> (Inl (Failed ''Server error''), w1)
            | (True, w1) \<Rightarrow>
                (let matching =
                       filter (\<lambda>t. t_subject t = subject \<and> t_level t = level) (tests w1);
                     ordered =
                       (if pick = text_of ''latest''
                        then sort_key (\<lambda>t. - int (t_created_at t)) matching
                        else sort_key (\<lambda>t. rnd (t_id t)) matching)
                 in case take 1 ordered of
                      [] \<Rightarrow> (Inl No_tests_found, w1)
                    | row # _ \<Rightarrow> (Inr (view_of row), w1))))"

section \<open>Reference formulations\<close>

text \<open>
  The entry that the codec is specified to write for position \<open>i\<close> of a key
  text: key \<^verbatim>\<open>q<i+1>\<close>, value the position of the letter in the alphabet.
\<close>

definition key_entry :: "jstring \<Rightarrow> nat \<Rightarrow> jstring \<times> json" where
  "key_entry s i =
     (text_of ''q'' @ show_nat (i + 1), JNum (of_int (s ! i - char_code CHR ''A'')))"

text \<open>
  The score as the specification words it, in exact arithmetic:
  round(100 \<times> correct / max(total, 1)), a tie going up.
\<close>

definition spec_score :: "nat \<Rightarrow> nat \<Rightarrow> int" where
  "spec_score correct total' = \<lfloor>100 * rat_of_nat correct / rat_of_nat (max total' 1) + 1 / 2\<rfloor>"

text \<open>The answer a submission gives to a question, if any.\<close>

definition answer_at :: "object option \<Rightarrow> jstring \<Rightarrow> json option" where
  "answer_at answers qid = (case answers of None \<Rightarrow> None | Some a \<Rightarrow> map_of a qid)"

text \<open>
  The upload folder is \<^verbatim>\<open>path.join(process.cwd(), "uploads")\<close>, a normalised
  absolute path: no empty segment, no \<^verbatim>\<open>.\<close>, no \<^verbatim>\<open>..\<close>.
\<close>

definition normal_dir :: "jstring list \<Rightarrow> bool" where
  "normal_dir d = list_all (\<lambda>s. s \<noteq> [] \<and> s \<noteq> text_of ''.'' \<and> s \<noteq> text_of ''..'') d"

text \<open>
  The file names the upload storage generates have the shape
  \<^verbatim>\<open><time>-<hex><ext>\<close>: not empty, not \<^verbatim>\<open>.\<close>, no \<^verbatim>\<open>/\<close>, no \<^verbatim>\<open>..\<close>.
\<close>

definition plain_name :: "jstring \<Rightarrow> bool" where
  "plain_name name =
     (name \<noteq> [] \<and> name \<noteq> text_of ''.'' \<and> char_code CHR ''/'' \<notin> set name \<and> \<not> includes_str name (text_of ''..''))"

section \<open>Sample data\<close>

text \<open>
  Case tables for the samples, whose text is ASCII but for white space: they
  convert the ASCII letters and leave every other code unit as it is.
\<close>

definition sample_unicode :: unicode where
  "sample_unicode = \<lparr>upper_case = map upper_unit, lower_case = map lower_unit\<rparr>"

definition empty_world :: world where
  "empty_world =
     \<lparr>tests = [], submissions = [], files = {}, dirs = {}, frozen = {}, warnings = [],
      outages = []\<rparr>"

text \<open>The upload of the specification's example: three questions, four choices, key \<^verbatim>\<open>BAD\<close>.\<close>

definition sample_upload :: upload_req where
  "sample_upload =
     \<lparr>u_file = Some (text_of ''1700000000000-9f3a.png''),
      u_subject = Some (text_of ''english''),
      u_level = Some (text_of ''beginner''),
      u_title = None,
      u_num_questions = Some (text_of ''3''),
      u_choices_count = Some (text_of ''4''),
      u_answer_key = Some (text_of ''BAD'')\<rparr>"

text \<open>The test that this upload stores.\<close>

definition sample_test :: test where
  "sample_test =
     \<lparr>t_id = text_of ''t1'',
      t_subject = text_of ''english'',
      t_level = text_of ''beginner'',
      t_title = text_of ''ENGLISH beginner Test'',
      t_questions =
        \<lparr>q_type = text_of ''image'',
         image_url = Some (text_of ''/uploads/1700000000000-9f3a.png''),
         num_questions = Some 3,
         choices_count = Some 4,
         choices = Some [text_of ''A'', text_of ''B'', text_of ''C'', text_of ''D'']\<rparr>,
      t_answer_key = [(text_of ''q1'', JNum 1), (text_of ''q2'', JNum 0), (text_of ''q3'', JNum 3)],
      t_created_at = 1\<rparr>"

text \<open>
  A world with this test and its image; the upload folder is \<^verbatim>\<open>/srv/uploads\<close>.
\<close>

definition sample_dir :: "jstring list" where
  "sample_dir = [text_of ''srv'', text_of ''uploads'']"

definition sample_world :: world where
  "sample_world =
     empty_world
       \<lparr>tests := [sample_test],
        files := {[text_of ''srv'', text_of ''uploads'', text_of ''1700000000000-9f3a.png'']},
        dirs := {[text_of ''srv''], [text_of ''srv'', text_of ''uploads'']}\<rparr>"

text \<open>
  The same world once an upload has stored a second image, and with the first
  image in a state where \<^verbatim>\<open>unlinkSync\<close> fails on it.
\<close>

definition uploaded_world :: world where
  "uploaded_world =
     sample_world
       \<lparr>files := {[text_of ''srv'', text_of ''uploads'', text_of ''1700000000000-9f3a.png''],
                  [text_of ''srv'', text_of ''uploads'', text_of ''1700000000999-ab12.png'']}\<rparr>"

definition frozen_world :: world where
  "frozen_world =
     uploaded_world
       \<lparr>frozen := {[text_of ''srv'', text_of ''uploads'', text_of ''1700000000000-9f3a.png'']}\<rparr>"

text \<open>The submission of the specification's example: two of three answers are right.\<close>

definition sample_submit :: submit_req where
  "sample_submit =
     \<lparr>r_test_id = Some (text_of ''t1''),
      r_name = Some (text_of ''Ada''),
      r_grade = Some (text_of ''9''),
      r_email = Some (text_of ''ada@example.org''),
      r_phone = Some (text_of ''555-0100''),
      r_subject = Some (text_of ''english''),
      r_level = Some (text_of ''beginner''),
      r_answers = Some [(text_of ''q1'', JNum 1), (text_of ''q2'', JNum 0), (text_of ''q3'', JNum 0)]\<rparr>"

text \<open>
  A key of forty questions, \<^verbatim>\<open>A\<close> for the first 23 and \<^verbatim>\<open>B\<close> for the other 17, and a
  submission that answers \<^verbatim>\<open>A\<close> everywhere: 23 of 40 are right.
\<close>

definition key_23_of_40 :: object where
  "key_23_of_40 = map (\<lambda>i. (text_of ''q'' @ show_nat i, JNum (if i \<le> 23 then 0 else 1))) [1..<41]"

definition answers_all_A :: object where
  "answers_all_A = map (\<lambda>i. (text_of ''q'' @ show_nat i, JNum 0)) [1..<41]"

text \<open>An edit that raises the question count to five and sends no answer key.\<close>

definition sample_edit :: edit_req where
  "sample_edit =
     \<lparr>e_title = None,
      e_subject = None,
      e_level = None,
      e_num_questions = Some (Finite 5),
      e_choices_count = None,
      e_answer_key = None,
      e_remove_image = None,
      e_file = None\<rparr>"

text \<open>
  An edit that raises the question count to five and the choice count to five,
  and sends the key \<^verbatim>\<open>abcde\<close>, which needs the fifth letter.
\<close>

definition key_edit :: edit_req where
  "key_edit =
     sample_edit\<lparr>e_choices_count := Some (Finite 5), e_answer_key := Some (text_of ''abcde'')\<rparr>"

text \<open>The row that grading \<open>sample_submit\<close> stores, and the world that holds it.\<close>

definition sample_submission :: submission where
  "sample_submission =
     \<lparr>s_id = text_of ''s1'',
      s_test_id = Some (text_of ''t1''),
      s_name = text_of ''Ada'',
      s_grade = text_of ''9'',
      s_email = text_of ''ada@example.org'',
      s_phone = text_of ''555-0100'',
      s_subject = text_of ''english'',
      s_level = text_of ''beginner'',
      s_answers = [(text_of ''q1'', JNum 1), (text_of ''q2'', JNum 0), (text_of ''q3'', JNum 0)],
      s_score = 67,
      s_submitted_at = 5\<rparr>"

definition graded_world :: world where
  "graded_world = sample_world\<lparr>submissions := [sample_submission]\<rparr>"

text \<open>A table definition that lets \<^verbatim>\<open>test_id\<close> be \<^verbatim>\<open>NULL\<close>, as the delete handler asks for.\<close>

definition schema_nullable :: schema where
  "schema_nullable = \<lparr>test_id_not_null = False, on_delete = Set_null\<rparr>"

section \<open>Properties of the answer-key codec\<close>

lemma length_text_of [simp]: "length (text_of s) = length s"
  by (simp add: text_of_def)

lemma text_of_Nil [simp]: "text_of s = [] \<longleftrightarrow> s = []"
  by (simp add: text_of_def)

lemma digits_value_snoc: "digits_value (ds @ [c]) = 10 * digits_value ds + (c - 48)"
  by (simp add: digits_value_def char_code_def)

lemma char_code_digit: "digit_unit d = 48 + int d"
  by (simp add: char_code_def digit_unit_def)

lemma digits_value_show_nat: "digits_value (show_nat n) = int n"
proof (induction n rule: show_nat.induct)
  case (1 n)
  show ?case
  proof (cases "n < 10")
    case True
    then show ?thesis
      by (subst show_nat.simps) (simp add: digits_value_def char_code_digit char_code_def)
  next
    case False
    with 1 have "digits_value (show_nat (n div 10)) = int (n div 10)" by simp
    moreover have "10 * int (n div 10) + int (n mod 10) = int n"
      by presburger
    ultimately show ?thesis using False
      by (subst show_nat.simps) (simp add: digits_value_snoc char_code_digit char_code_def)
  qed
qed

lemma show_nat_inj: "show_nat a = show_nat b \<Longrightarrow> a = b"
  by (metis digits_value_show_nat of_nat_eq_iff)

lemma indexOf_absent: "indexOf ls c = - 1 \<longleftrightarrow> c \<notin> set ls"
  and indexOf_range: "- 1 \<le> indexOf ls c"
  by (induction ls) (auto simp: Let_def)

lemma indexOf_letters:
  assumes "C = 4 \<or> C = 5" and "c \<in> set (letters_of C)"
  shows "indexOf (letters_of C) c = c - char_code CHR ''A''"
    and "0 \<le> c - char_code CHR ''A''" and "c - char_code CHR ''A'' < int C"
  using assms by (auto simp: letters_of_def text_of_def char_code_def)


lemma update_fresh: "k \<notin> fst ` set m \<Longrightarrow> AList.update k v m = m @ [(k, v)]"
  by (induction m) auto

lemma key_entry_fresh: "fst (key_entry s i) \<notin> fst ` set (map (key_entry s) [0..<i])"
  by (auto simp: key_entry_def dest: show_nat_inj)

lemma key_loop_ok:
  assumes C: "C = 4 \<or> C = 5" and ok: "set s \<subseteq> set (letters_of C)"
  shows "i \<le> length s \<Longrightarrow>
         key_loop (letters_of C) s (of_nat (length s)) i (map (key_entry s) [0..<i])
           = Inr (map (key_entry s) [0..<length s])"
proof (induction "length s - i" arbitrary: i)
  case 0
  then have "i = length s" by simp
  then show ?case by (subst key_loop.simps) simp
next
  case (Suc d)
  then have lt: "i < length s" by simp
  then have mem: "s ! i \<in> set (letters_of C)" using ok by auto
  have idx: "indexOf (letters_of C) (s ! i) = s ! i - char_code CHR ''A''"
    using indexOf_letters(1)[OF C mem] .
  have nonneg: "indexOf (letters_of C) (s ! i) \<noteq> - 1"
    using indexOf_letters(2)[OF C mem] idx by simp
  have upd: "AList.update (text_of ''q'' @ show_nat (i + 1)) (JNum (of_int (indexOf (letters_of C) (s ! i))))
               (map (key_entry s) [0..<i]) = map (key_entry s) [0..<Suc i]"
    using update_fresh[OF key_entry_fresh[of s i]] by (simp add: key_entry_def idx)
  have "key_loop (letters_of C) s (of_nat (length s)) (Suc i) (map (key_entry s) [0..<Suc i])
          = Inr (map (key_entry s) [0..<length s])"
    using Suc(1)[of "Suc i"] Suc(2) lt by simp
  then show ?case
    using lt upd nonneg by (subst key_loop.simps) (simp add: Let_def)
qed

lemma key_loop_bad:
  "\<exists>j. i \<le> j \<and> j < length s \<and> s ! j \<notin> set letters \<Longrightarrow>
     key_loop letters s (of_nat (length s)) i m = Inl (Key_letters letters)"
proof (induction "length s - i" arbitrary: i m)
  case 0
  then show ?case by auto
next
  case (Suc d)
  then obtain j where j: "i \<le> j" "j < length s" "s ! j \<notin> set letters" by blast
  then have lt: "i < length s" by simp
  show ?case
  proof (cases "s ! i \<in> set letters")
    case False
    then show ?thesis using lt
      by (subst key_loop.simps) (simp add: indexOf_absent)
  next
    case True
    then have "i \<noteq> j" using j by auto
    then have "\<exists>j. Suc i \<le> j \<and> j < length s \<and> s ! j \<notin> set letters"
      using j by (intro exI[of _ j]) simp
    then have "key_loop letters s (of_nat (length s)) (Suc i)
                 (AList.update (text_of ''q'' @ show_nat (i + 1)) (JNum (of_int (indexOf letters (s ! i)))) m)
               = Inl (Key_letters letters)"
      using Suc(1)[of "Suc i"] Suc(2) by simp
    then show ?thesis using lt True
      by (subst key_loop.simps) (simp add: Let_def indexOf_absent)
  qed
qed

lemma letters_plain:
  assumes "C = 4 \<or> C = 5" "c \<in> set (letters_of C)"
  shows "\<not> is_space c" "upper_unit c = c" "is_ascii c"
  using assms
  by (auto simp: letters_of_def text_of_def is_space_def upper_unit_def is_ascii_def char_code_def)

lemma dropWhile_none: "\<forall>c \<in> set xs. \<not> P c \<Longrightarrow> dropWhile P xs = xs"
  by (cases xs) auto

lemma normalise_plain:
  assumes C: "C = 4 \<or> C = 5" and ok: "set s \<subseteq> set (letters_of C)"
  shows "normalise_key uc (Some s) = s"
proof -
  have ns: "\<forall>c \<in> set s. \<not> is_space c" and up: "\<forall>c \<in> set s. upper_unit c = c"
    and asc: "\<forall>c \<in> set s. is_ascii c"
    using letters_plain[OF C] ok by auto
  have "dropWhile is_space s = s"
    using ns by (rule dropWhile_none)
  moreover have "dropWhile is_space (rev s) = rev s"
    using ns by (intro dropWhile_none) simp
  ultimately have "trim s = s" by (simp add: trim_def)
  moreover have "toUpperCase uc s = s"
    using up asc by (simp add: toUpperCase_def map_idI list_all_iff)
  moreover have "strip_spaces s = s"
    using ns by (simp add: strip_spaces_def)
  ultimately show ?thesis by (simp add: normalise_key_def)
qed

lemma encode_plain_key:
  assumes "C = 4 \<or> C = 5" and "set s \<subseteq> set (letters_of C)"
  shows "encode_answer_key uc (letters_of C) (of_nat (length s)) (Some s)
           = Inr (map (key_entry s) [0..<length s])"
  using key_loop_ok[OF assms, of 0]
  by (simp add: encode_answer_key_def normalise_plain[OF assms])

text \<open>
  C3.  For every question count \<open>N\<close> from 1 to 200 and choice count \<open>C\<close> of 4 or 5,
  encoding a key string of length \<open>N\<close> whose characters all come from the first
  \<open>C\<close> letters of \<^verbatim>\<open>ABCDE\<close> succeeds; the mapping has exactly \<open>N\<close> entries, keyed
  \<^verbatim>\<open>q1\<close> to \<^verbatim>\<open>qN\<close> in this order, and the value of entry \<open>i\<close> is the zero-based index
  of the \<open>i\<close>-th letter, below \<open>C\<close>.
\<close>

theorem encode_valid_key:
  assumes "1 \<le> N" and "N \<le> 200" and "C = 4 \<or> C = 5"
    and "length s = N" and "set s \<subseteq> set (letters_of C)"
  shows "\<exists>m. encode_answer_key uc (letters_of C) (of_nat N) (Some s) = Inr m
           \<and> m = map (key_entry s) [0..<N]
           \<and> length m = N
           \<and> map fst m = map (\<lambda>i. text_of ''q'' @ show_nat (i + 1)) [0..<N]
           \<and> distinct (map fst m)
           \<and> (\<forall>i<N. \<exists>k<C. snd (m ! i) = JNum (of_nat k) \<and> text_of ''ABCDE'' ! k = s ! i)"
proof -
  let ?m = "map (key_entry s) [0..<N]"
  have enc: "encode_answer_key uc (letters_of C) (of_nat N) (Some s) = Inr ?m"
    using encode_plain_key[OF assms(3) assms(5)] assms(4) by simp
  have keys: "map fst ?m = map (\<lambda>i. text_of ''q'' @ show_nat (i + 1)) [0..<N]"
    by (simp add: key_entry_def)
  have "inj_on (\<lambda>i. text_of ''q'' @ show_nat (i + 1)) {0..<N}"
    by (auto simp: inj_on_def dest: show_nat_inj)
  then have dist: "distinct (map fst ?m)"
    unfolding keys by (simp add: distinct_map)
  have vals: "\<exists>k<C. snd (?m ! i) = JNum (of_nat k) \<and> text_of ''ABCDE'' ! k = s ! i" if "i < N" for i
  proof -
    have mem: "s ! i \<in> set (letters_of C)" using that assms(4,5) by auto
    let ?k = "nat (s ! i - char_code CHR ''A'')"
    have "?k < C" using indexOf_letters(2,3)[OF assms(3) mem] by simp
    moreover have "s ! i = 65 \<or> s ! i = 66 \<or> s ! i = 67 \<or> s ! i = 68 \<or> s ! i = 69"
      using mem assms(3) by (auto simp: letters_of_def text_of_def char_code_def)
    then have "text_of ''ABCDE'' ! ?k = s ! i"
      by (auto simp: text_of_def char_code_def)
    moreover note indexOf_letters(2)[OF assms(3) mem]
    ultimately show ?thesis using that by (intro exI[of _ ?k]) (simp add: key_entry_def)
  qed
  show ?thesis using enc keys dist vals by (intro exI[of _ ?m]) simp
qed

theorem encode_valid_key_witness:
  "\<exists>m. encode_answer_key sample_unicode (letters_of 4) 3 (Some (text_of ''BAD'')) = Inr m
     \<and> m = [(text_of ''q1'', JNum 1), (text_of ''q2'', JNum 0), (text_of ''q3'', JNum 3)]"
proof -
  have s: "set (text_of ''BAD'') \<subseteq> set (letters_of 4)"
    by (simp add: letters_of_def text_of_def)
  have "\<exists>m. encode_answer_key sample_unicode (letters_of 4) (of_nat 3) (Some (text_of ''BAD'')) = Inr m
          \<and> m = map (key_entry (text_of ''BAD'')) [0..<3]"
    using encode_valid_key[of 3 4 "text_of ''BAD''" sample_unicode] s
    by (auto simp: text_of_def)
  moreover have "map (key_entry (text_of ''BAD'')) [0..<3] = [(text_of ''q1'', JNum 1), (text_of ''q2'', JNum 0), (text_of ''q3'', JNum 3)]"
    by code_simp
  ultimately show ?thesis by simp
qed

lemma encode_rejects:
  assumes "of_nat (length (normalise_key uc raw)) \<noteq> n
             \<or> (\<exists>ch \<in> set (normalise_key uc raw). ch \<notin> set letters)"
  shows "encode_answer_key uc letters n raw = Inl (Key_length n)
           \<or> encode_answer_key uc letters n raw = Inl (Key_letters letters)"
proof (cases "of_nat (length (normalise_key uc raw)) = n")
  case False
  then show ?thesis by (simp add: encode_answer_key_def)
next
  case True
  with assms obtain ch where "ch \<in> set (normalise_key uc raw)" "ch \<notin> set letters" by blast
  then obtain j where "j < length (normalise_key uc raw)" "normalise_key uc raw ! j \<notin> set letters"
    by (auto simp: in_set_conv_nth)
  then have "key_loop letters (normalise_key uc raw) (of_nat (length (normalise_key uc raw))) 0 []
               = Inl (Key_letters letters)"
    by (intro key_loop_bad) auto
  then show ?thesis using True by (simp add: encode_answer_key_def Let_def)
qed

text \<open>
  C4, as amended.  For every declared question count and choice count of 4 or
  5: when the key string, after trimming, upper-casing and removal of white
  space, has a length other than the question count or contains a character
  outside the first \<open>C\<close> letters, the encoding fails with a validation error
  (status 400), so does the upload, and the tables are as before: no test
  record is created.
\<close>

theorem upload_rejects_bad_key:
  assumes "parseInt (u_num_questions req) = Some n"
    and "c = (case parseInt (u_choices_count req) of None \<Rightarrow> 5 | Some c \<Rightarrow> if c = 0 then 5 else c)"
    and "c = 4 \<or> c = 5"
    and "int (length (normalise_key uc (u_answer_key req))) \<noteq> n
           \<or> (\<exists>ch \<in> set (normalise_key uc (u_answer_key req)). ch \<notin> set (letters_of (nat c)))"
  shows "(\<exists>e. encode_answer_key uc (letters_of (nat c)) (of_int n) (u_answer_key req) = Inl e
               \<and> status e = 400)
         \<and> (\<exists>e. upload_test uc new_id now w req = (Inl e, w) \<and> status e = 400)"
proof -
  have "rat_of_nat (length (normalise_key uc (u_answer_key req))) \<noteq> rat_of_int n
          \<or> (\<exists>ch \<in> set (normalise_key uc (u_answer_key req)). ch \<notin> set (letters_of (nat c)))"
    using assms(4) by (metis of_int_eq_iff of_int_of_nat_eq)
  then have enc: "encode_answer_key uc (letters_of (nat c)) (of_int n) (u_answer_key req) = Inl (Key_length (of_int n))
          \<or> encode_answer_key uc (letters_of (nat c)) (of_int n) (u_answer_key req) = Inl (Key_letters (letters_of (nat c)))"
    by (rule encode_rejects)
  then have 1: "\<exists>e. encode_answer_key uc (letters_of (nat c)) (of_int n) (u_answer_key req) = Inl e
               \<and> status e = 400"
    by auto
  have 2: "\<exists>e. upload_test uc new_id now w req = (Inl e, w) \<and> status e = 400"
    using enc assms(1,3) assms(2)[symmetric]
    by (auto simp: upload_test_def Let_def split: option.splits)
  show ?thesis using 1 2 by simp
qed

lemma sample_upload_stores:
  "upload_test sample_unicode (text_of ''t1'') 1 empty_world sample_upload
     = (Inr sample_test, empty_world\<lparr>tests := [sample_test]\<rparr>)"
  by code_simp

theorem upload_rejects_bad_key_witness:
  "(\<exists>e. encode_answer_key sample_unicode (letters_of (nat 4)) (of_int 3)
          (u_answer_key (sample_upload\<lparr>u_answer_key := Some (text_of ''ABX'')\<rparr>)) = Inl e
        \<and> status e = 400)
   \<and> (\<exists>e. upload_test sample_unicode (text_of ''t1'') 1 empty_world (sample_upload\<lparr>u_answer_key := Some (text_of ''ABX'')\<rparr>)
               = (Inl e, empty_world)
            \<and> status e = 400)"
proof -
  let ?req = "sample_upload\<lparr>u_answer_key := Some (text_of ''ABX'')\<rparr>"
  have h1: "parseInt (u_num_questions ?req) = Some 3"
    by code_simp
  have h2: "4 = (case parseInt (u_choices_count ?req) of None \<Rightarrow> 5 | Some c \<Rightarrow> if c = 0 then 5 else c)"
    by code_simp
  have h3: "(4::int) = 4 \<or> (4::int) = 5"
    by simp
  have "char_code CHR ''X'' \<in> set (normalise_key sample_unicode (u_answer_key ?req))" "char_code CHR ''X'' \<notin> set (letters_of (nat 4))"
    by code_simp+
  then have h4: "int (length (normalise_key sample_unicode (u_answer_key ?req))) \<noteq> 3
           \<or> (\<exists>ch \<in> set (normalise_key sample_unicode (u_answer_key ?req)). ch \<notin> set (letters_of (nat 4)))"
    by blast
  show ?thesis
    using upload_rejects_bad_key[OF h1 h2 h3 h4] .
qed

theorem lowercase_spaced_key_accepted:
  "length (text_of ''b a d'') \<noteq> 3
   \<and> char_code CHR ''b'' \<notin> set (letters_of 4)
   \<and> encode_answer_key sample_unicode (letters_of 4) 3 (Some (text_of ''b a d''))
       = Inr [(text_of ''q1'', JNum 1), (text_of ''q2'', JNum 0), (text_of ''q3'', JNum 3)]
   \<and> upload_test sample_unicode (text_of ''t1'') 1 empty_world (sample_upload\<lparr>u_answer_key := Some (text_of ''b a d'')\<rparr>)
       = (Inr sample_test, empty_world\<lparr>tests := [sample_test]\<rparr>)"
  by code_simp

text \<open>
  White space inside a key is removed whatever its kind: the key \<^verbatim>\<open>A\<close>, no-break
  space (U+00A0), \<^verbatim>\<open>B\<close> is stored as the key \<^verbatim>\<open>AB\<close> of two questions.  (The
  no-break space has no upper case, as in the sample tables.)
\<close>

lemma nbsp_key_accepted:
  "normalise_key sample_unicode (Some [char_code CHR ''A'', 0xA0, char_code CHR ''B'']) = text_of ''AB''
   \<and> encode_answer_key sample_unicode (letters_of 4) 2
         (Some [char_code CHR ''A'', 0xA0, char_code CHR ''B''])
       = Inr [(text_of ''q1'', JNum 0), (text_of ''q2'', JNum 1)]"
  by code_simp

section \<open>Properties of double-precision rounding\<close>

lemma bitlen_bounds:
  "0 < n \<Longrightarrow> 1 \<le> bitlen n \<and> 2 ^ nat (bitlen n - 1) \<le> n \<and> n < 2 ^ nat (bitlen n)"
proof (induction n rule: bitlen.induct)
  case (1 n)
  show ?case
  proof (cases "n = 1")
    case True
    then show ?thesis
      by (subst (1 2 3) bitlen.simps, subst (1 2 3) bitlen.simps) simp
  next
    case False
    with 1(2) have pos: "0 < n div 2" by simp
    have IH: "1 \<le> bitlen (n div 2)" "2 ^ nat (bitlen (n div 2) - 1) \<le> n div 2"
      "n div 2 < 2 ^ nat (bitlen (n div 2))"
      using 1(1) pos 1(2) by simp_all
    have eq: "bitlen n = 1 + bitlen (n div 2)"
      using 1(2) by (subst bitlen.simps) simp
    define b where "b = bitlen (n div 2)"
    have b1: "1 \<le> b" and lo: "2 ^ nat (b - 1) \<le> n div 2" and hi: "n div 2 < 2 ^ nat b"
      using IH by (simp_all add: b_def)
    have e1: "nat b = Suc (nat (b - 1))" and e2: "nat (1 + b) = Suc (nat b)"
      using b1 by simp_all
    have "(2::int) ^ nat b = 2 * 2 ^ nat (b - 1)"
      by (subst e1) simp
    then have "2 ^ nat b \<le> n"
      using lo by linarith
    moreover have "n < 2 ^ nat (1 + b)"
      unfolding e2 using hi by simp
    ultimately show ?thesis
      using eq b1 by (simp add: b_def)
  qed
qed

lemma binade_ge1:
  assumes "1 \<le> (x::rat)"
  shows "2 powi (binade x) \<le> x" and "x < 2 powi (binade x + 1)"
proof -
  define n where "n = \<lfloor>x\<rfloor>"
  have n1: "1 \<le> n" using assms by (simp add: n_def le_floor_iff)
  then have B: "1 \<le> bitlen n" "2 ^ nat (bitlen n - 1) \<le> n" "n < 2 ^ nat (bitlen n)"
    using bitlen_bounds[of n] by simp_all
  have e: "binade x = bitlen n - 1" using assms by (simp add: binade_def n_def)
  have "(2::rat) powi (bitlen n - 1) = of_int (2 ^ nat (bitlen n - 1))"
    using B(1) by (simp add: power_int_nonneg_exp)
  also have "\<dots> \<le> of_int n" using B(2) by (simp only: of_int_le_iff)
  also have "\<dots> \<le> x" by (simp add: n_def)
  finally show "2 powi (binade x) \<le> x" by (simp add: e)
  have "x < of_int (n + 1)" unfolding n_def by linarith
  also have "\<dots> \<le> of_int (2 ^ nat (bitlen n))" using B(3) by (simp only: of_int_le_iff)
  also have "\<dots> = (2::rat) powi (bitlen n)"
    using B(1) by (simp add: power_int_nonneg_exp)
  finally show "x < 2 powi (binade x + 1)" by (simp add: e)
qed

lemma binade_lt1:
  assumes "0 < (x::rat)" "x < 1"
  shows "2 powi (binade x) \<le> x" and "x < 2 powi (binade x + 1)"
proof -
  define m where "m = \<lceil>1 / x\<rceil> - 1"
  have y1: "1 < 1 / x" using assms by simp
  then have "1 < \<lceil>1 / x\<rceil>" by (simp add: less_ceiling_iff)
  then have m1: "1 \<le> m" by (simp add: m_def)
  then have B: "1 \<le> bitlen m" "2 ^ nat (bitlen m - 1) \<le> m" "m < 2 ^ nat (bitlen m)"
    using bitlen_bounds[of m] by simp_all
  define k where "k = bitlen m"
  have e: "binade x = - k" using assms by (simp add: binade_def m_def k_def)
  have mlt: "of_int m < 1 / x" unfolding m_def by linarith
  have mge: "1 / x \<le> of_int (m + 1)" unfolding m_def by simp
  have pk: "(2::rat) powi k = of_int (2 ^ nat k)"
    using B(1) by (simp add: power_int_nonneg_exp k_def)
  have pk1: "(2::rat) powi (k - 1) = of_int (2 ^ nat (k - 1))"
    using B(1) by (simp add: power_int_nonneg_exp k_def)
  have "1 / x \<le> of_int (m + 1)" by (rule mge)
  also have "\<dots> \<le> of_int (2 ^ nat k)" using B(3) unfolding k_def by (simp only: of_int_le_iff)
  finally have "1 / x \<le> 2 powi k" by (simp add: pk)
  then have "1 \<le> 2 powi k * x" using assms(1) by (simp add: field_simps)
  then have "1 / 2 powi k \<le> x" by (simp add: field_simps)
  then show "2 powi (binade x) \<le> x" by (simp add: e power_int_minus_divide)
  have "(2::rat) powi (k - 1) \<le> of_int m"
    unfolding pk1 using B(2) unfolding k_def by (simp only: of_int_le_iff)
  also have "\<dots> < 1 / x" by (rule mlt)
  finally have "2 powi (k - 1) * x < 1" using assms(1) by (simp add: field_simps)
  then have "x < 1 / 2 powi (k - 1)" by (simp add: field_simps)
  also have "\<dots> = 2 powi (- k + 1)"
    using power_int_minus_divide[of "2::rat" "k - 1"] by simp
  finally show "x < 2 powi (binade x + 1)" by (simp add: e)
qed

lemma binade_bounds:
  assumes "0 < (x::rat)"
  shows "2 powi (binade x) \<le> x" and "x < 2 powi (binade x + 1)"
  using binade_ge1[of x] binade_lt1[of x] assms by (cases "1 \<le> x"; simp)+

lemma binade_mono:
  assumes "0 < x" "x \<le> y"
  shows "binade x \<le> binade y"
proof (rule ccontr)
  assume "\<not> binade x \<le> binade y"
  then have "binade y + 1 \<le> binade x" by simp
  then have "(2::rat) powi (binade y + 1) \<le> 2 powi (binade x)"
    by (intro power_int_increasing) simp_all
  also have "\<dots> \<le> x" using binade_bounds(1)[OF assms(1)] .
  also have "\<dots> \<le> y" by (rule assms(2))
  also have "\<dots> < 2 powi (binade y + 1)" using binade_bounds(2)[of y] assms by simp
  finally show False by simp
qed

lemma round_half_even_cases:
  "round_half_even x = \<lfloor>x\<rfloor> \<or> round_half_even x = \<lfloor>x\<rfloor> + 1"
  by (simp add: round_half_even_def Let_def)

lemma round_half_even_of_int: "round_half_even (of_int n) = n"
  by (simp add: round_half_even_def)

lemma round_half_even_mono:
  assumes "x \<le> y"
  shows "round_half_even x \<le> round_half_even y"
proof (cases "\<lfloor>x\<rfloor> = \<lfloor>y\<rfloor>")
  case True
  then have "x - of_int \<lfloor>x\<rfloor> \<le> y - of_int \<lfloor>y\<rfloor>" using assms by simp
  then show ?thesis using True by (auto simp: round_half_even_def Let_def)
next
  case False
  then have "\<lfloor>x\<rfloor> + 1 \<le> \<lfloor>y\<rfloor>" using floor_mono[OF assms] by linarith
  moreover have "round_half_even x \<le> \<lfloor>x\<rfloor> + 1" using round_half_even_cases[of x] by auto
  moreover have "\<lfloor>y\<rfloor> \<le> round_half_even y" using round_half_even_cases[of y] by auto
  ultimately show ?thesis by linarith
qed

lemma round_half_even_nonneg: "0 \<le> x \<Longrightarrow> 0 \<le> round_half_even x"
  using round_half_even_mono[of 0 x] round_half_even_of_int[of 0] by simp

lemma fl_pos:
  assumes "0 < x"
  shows "fl x = of_int (round_half_even (x / 2 powi (max (binade x - 52) (- 1074))))
                  * 2 powi (max (binade x - 52) (- 1074))"
  using assms by (simp add: fl_def Let_def)

lemma fl_nonneg:
  assumes "0 \<le> x"
  shows "0 \<le> fl x"
proof (cases "x = 0")
  case True
  then show ?thesis by (simp add: fl_def)
next
  case False
  then have pos: "0 < x" using assms by simp
  have "0 \<le> x / 2 powi (max (binade x - 52) (- 1074))"
    using pos by simp
  then have "0 \<le> round_half_even (x / 2 powi (max (binade x - 52) (- 1074)))"
    by (rule round_half_even_nonneg)
  then show ?thesis
    unfolding fl_pos[OF pos] by simp
qed

lemma fl_mono:
  assumes "0 \<le> x" "x \<le> y"
  shows "fl x \<le> fl y"
proof (cases "x = 0")
  case True
  then show ?thesis using fl_nonneg[of y] assms by (simp add: fl_def)
next
  case False
  then have px: "0 < x" using assms by simp
  then have py: "0 < y" using assms by simp
  define qx where "qx = max (binade x - 52) (- 1074)"
  define qy where "qy = max (binade y - 52) (- 1074)"
  have fx: "fl x = of_int (round_half_even (x / 2 powi qx)) * 2 powi qx"
    using fl_pos[OF px] by (simp add: qx_def)
  have fy: "fl y = of_int (round_half_even (y / 2 powi qy)) * 2 powi qy"
    using fl_pos[OF py] by (simp add: qy_def)
  have le: "qx \<le> qy"
    using binade_mono[OF px assms(2)] by (simp add: qx_def qy_def)
  show ?thesis
  proof (cases "qx = qy")
    case True
    have "x / 2 powi qy \<le> y / 2 powi qy"
      using assms(2) by (simp add: divide_right_mono)
    then have "round_half_even (x / 2 powi qy) \<le> round_half_even (y / 2 powi qy)"
      by (rule round_half_even_mono)
    then have "(of_int (round_half_even (x / 2 powi qy)) :: rat) \<le> of_int (round_half_even (y / 2 powi qy))"
      by (simp only: of_int_le_iff)
    then show ?thesis
      unfolding fx fy True by (intro mult_right_mono) simp_all
  next
    case False
    then have lt: "qx < qy" using le by simp
    define ey where "ey = binade y"
    have qy_eq: "qy = ey - 52" using lt by (simp add: qx_def qy_def ey_def max_def split: if_splits)
    have ex: "binade x + 1 \<le> ey" using lt qy_eq by (simp add: qx_def)
    have d: "0 < ey - qx" using lt qy_eq by simp
    \<comment> \<open>the larger argument rounds to at least \<open>2^ey\<close>\<close>
    have "(2::rat) powi ey / 2 powi qy = of_int (2 ^ 52)"
      using power_int_diff[of "2::rat" ey qy] by (simp add: qy_eq)
    moreover have "(2::rat) powi ey / 2 powi qy \<le> y / 2 powi qy"
      using binade_bounds(1)[OF py] unfolding ey_def by (intro divide_right_mono) simp_all
    ultimately have "of_int (2 ^ 52) \<le> y / 2 powi qy"
      by simp
    then have "round_half_even (of_int (2 ^ 52)) \<le> round_half_even (y / 2 powi qy)"
      by (rule round_half_even_mono)
    then have "(of_int (2 ^ 52) :: rat) \<le> of_int (round_half_even (y / 2 powi qy))"
      by (simp only: round_half_even_of_int of_int_le_iff)
    then have "of_int (2 ^ 52) * 2 powi qy \<le> fl y"
      unfolding fy by (intro mult_right_mono) simp_all
    moreover have "of_int (2 ^ 52) * 2 powi qy = (2::rat) powi ey"
      using power_int_add[of "2::rat" 52 qy] by (simp add: qy_eq)
    ultimately have lower: "2 powi ey \<le> fl y" by simp
    \<comment> \<open>the smaller argument rounds to at most \<open>2^ey\<close>\<close>
    have "x < 2 powi (binade x + 1)" using binade_bounds(2)[OF px] .
    also have "\<dots> \<le> 2 powi ey" using ex by (intro power_int_increasing) simp_all
    finally have "x / 2 powi qx \<le> 2 powi ey / 2 powi qx"
      by (simp add: divide_right_mono)
    also have "\<dots> = 2 powi (ey - qx)"
      using power_int_diff[of "2::rat" ey qx] by simp
    also have "\<dots> = of_int (2 ^ nat (ey - qx))"
      using d by (simp add: power_int_nonneg_exp)
    finally have "round_half_even (x / 2 powi qx) \<le> round_half_even (of_int (2 ^ nat (ey - qx)))"
      by (rule round_half_even_mono)
    then have "(of_int (round_half_even (x / 2 powi qx)) :: rat) \<le> of_int (2 ^ nat (ey - qx))"
      by (simp only: round_half_even_of_int of_int_le_iff)
    then have "fl x \<le> of_int (2 ^ nat (ey - qx)) * 2 powi qx"
      unfolding fx by (intro mult_right_mono) simp_all
    moreover have "of_int (2 ^ nat (ey - qx)) * 2 powi qx = (2::rat) powi ey"
      using power_int_add[of "2::rat" "ey - qx" qx] d by (simp add: power_int_nonneg_exp)
    ultimately have "fl x \<le> 2 powi ey" by simp
    then show ?thesis using lower by simp
  qed
qed

lemma fl_values: "fl 0 = 0" "fl 1 = 1" "fl 100 = 100"
  by code_simp+

lemma math_round_mono: "x \<le> y \<Longrightarrow> math_round x \<le> math_round y"
  by (simp add: math_round_def floor_mono)

lemma score_of_mono:
  assumes "c \<le> c'"
  shows "score_of c t \<le> score_of c' t"
proof -
  let ?m = "rat_of_nat (max t 1)"
  have m: "0 < ?m" by simp
  have "rat_of_nat c / ?m \<le> rat_of_nat c' / ?m"
    using assms m by (intro divide_right_mono) simp_all
  moreover have "0 \<le> rat_of_nat c / ?m" by simp
  ultimately have 1: "fl (rat_of_nat c / ?m) \<le> fl (rat_of_nat c' / ?m)"
    using fl_mono by blast
  have 0: "0 \<le> fl (rat_of_nat c / ?m)"
    by (intro fl_nonneg) simp
  have "fl (fl (rat_of_nat c / ?m) * 100) \<le> fl (fl (rat_of_nat c' / ?m) * 100)"
    using 0 1 by (intro fl_mono) simp_all
  then show ?thesis
    unfolding score_of_def by (rule math_round_mono)
qed

lemma score_of_range:
  assumes "c \<le> t"
  shows "0 \<le> score_of c t" and "score_of c t \<le> 100"
proof -
  let ?m = "rat_of_nat (max t 1)"
  let ?q = "fl (rat_of_nat c / ?m)"
  have "rat_of_nat c \<le> ?m" using assms by simp
  then have "rat_of_nat c / ?m \<le> 1" by (simp add: divide_le_eq_1)
  then have q1: "?q \<le> 1" using fl_mono[of "rat_of_nat c / ?m" 1] by (simp add: fl_values)
  have q0: "0 \<le> ?q" by (intro fl_nonneg) simp
  have p0: "0 \<le> fl (?q * 100)" using q0 by (intro fl_nonneg) simp
  have "fl (?q * 100) \<le> fl 100" using q0 q1 by (intro fl_mono) simp_all
  then have p1: "fl (?q * 100) \<le> 100" by (simp add: fl_values)
  show "0 \<le> score_of c t" using p0 by (simp add: score_of_def math_round_def)
  have "fl (?q * 100) + 1 / 2 < 101" using p1 by simp
  then have "\<lfloor>fl (?q * 100) + 1 / 2\<rfloor> < 101" by (simp add: floor_less_iff)
  then show "score_of c t \<le> 100" by (simp add: score_of_def math_round_def)
qed

section \<open>Properties of grading\<close>

lemma grade_loop_counts:
  "grade_loop K A c t
     = (c + length (filter (\<lambda>(q, v). answered A q v) K), t + length K)"
  by (induction K arbitrary: c t) auto

lemma grade_counts:
  "grade K A = score_of (length (filter (\<lambda>(q, v). answered A q v) K)) (length K)"
  by (simp add: grade_def grade_loop_counts)

lemma answered_iff:
  "answered A q v \<longleftrightarrow> (\<exists>a. answer_at A q = Some a \<and> strict_equals a v)"
  by (auto simp: answered_def answer_at_def split: option.splits)

lemma filter_length_mono:
  "(\<And>x. x \<in> set xs \<Longrightarrow> P x \<Longrightarrow> Q x) \<Longrightarrow> length (filter P xs) \<le> length (filter Q xs)"
  by (induction xs) auto

lemma score_of_zero: "score_of 0 t = 0"
proof -
  have "fl 0 = 0" by (simp add: fl_def)
  moreover have "\<lfloor>1 / 2 :: rat\<rfloor> = 0" by (simp add: floor_eq_iff)
  ultimately show ?thesis by (simp add: score_of_def math_round_def)
qed

lemma grade_empty_key: "grade [] A = 0"
  by (simp add: grade_counts score_of_zero)

lemma grade_ignores_other_ids:
  assumes "\<And>q. q \<in> fst ` set K \<Longrightarrow> answer_at A' q = answer_at A q"
  shows "grade K A' = grade K A"
proof -
  have "answered A' q v = answered A q v" if "(q, v) \<in> set K" for q v
  proof -
    have "q \<in> fst ` set K" using that by force
    then show ?thesis using assms by (simp add: answered_iff)
  qed
  then have "filter (\<lambda>(q, v). answered A' q v) K = filter (\<lambda>(q, v). answered A q v) K"
    by (intro filter_cong) auto
  then show ?thesis by (simp add: grade_counts)
qed

text \<open>
  C2, where the code departs from it.  With 23 of 40 answers right the exact
  quotient is 57.5, which rounds to 58; the handler divides first, and the
  double nearest to 23/40, times 100, is the double just below 57.5, which
  \<^verbatim>\<open>Math.round\<close> takes to 57.
\<close>

theorem grade_23_of_40:
  "grade_loop key_23_of_40 (Some answers_all_A) 0 0 = (23, 40)
   \<and> fl (23 / 40) * 100 < 115 / 2
   \<and> grade key_23_of_40 (Some answers_all_A) = 57
   \<and> spec_score 23 40 = 58"
  by code_simp

text \<open>
  C8.  For every answer key and every answers map the computed score is an
  integer from 0 to 100, and so is the score that a successful submission
  returns and stores.
\<close>

theorem score_in_range:
  "0 \<le> grade answerKey answers \<and> grade answerKey answers \<le> 100
   \<and> (\<forall>sid sc ts w'.
         submit new_id now w req = (Inr (sid, sc, ts), w') \<longrightarrow>
           0 \<le> sc \<and> sc \<le> 100
           \<and> (\<exists>row \<in> set (submissions w'). s_id row = sid \<and> s_score row = sc))"
proof -
  have range: "0 \<le> grade K A \<and> grade K A \<le> 100" for K A
    unfolding grade_counts
    using score_of_range[of "length (filter (\<lambda>(q, v). answered A q v) K)" "length K"]
    by simp
  have "0 \<le> sc \<and> sc \<le> 100 \<and> (\<exists>row \<in> set (submissions w'). s_id row = sid \<and> s_score row = sc)"
    if "submit new_id now w req = (Inr (sid, sc, ts), w')" for sid sc ts w'
    using that range
    by (auto simp: submit_def insert_submission_def split: if_splits prod.splits bool.splits option.splits)
  then show ?thesis using range by blast
qed

theorem score_in_range_witness:
  "submit (text_of ''s1'') 5 sample_world sample_submit
     = (Inr (text_of ''s1'', 67, 5), snd (submit (text_of ''s1'') 5 sample_world sample_submit))
   \<and> (0::int) \<le> 67 \<and> (67::int) \<le> 100
   \<and> (\<exists>row \<in> set (submissions (snd (submit (text_of ''s1'') 5 sample_world sample_submit))).
         s_id row = text_of ''s1'' \<and> s_score row = 67)"
proof -
  have run: "submit (text_of ''s1'') 5 sample_world sample_submit
     = (Inr (text_of ''s1'', 67, 5), snd (submit (text_of ''s1'') 5 sample_world sample_submit))"
    by code_simp
  then show ?thesis
    using score_in_range[of "[]" None "text_of ''s1''" 5 sample_world sample_submit] by blast
qed

text \<open>
  C5.  Grading is monotonic.  Let the answers \<open>A'\<close> agree with \<open>A\<close> except at one
  question of the key, which \<open>A\<close> answers wrongly or not at all and \<open>A'\<close> answers
  correctly; then the score of \<open>A'\<close> is at least the score of \<open>A\<close>.  (The keys of a
  JSON object are distinct.)
\<close>

theorem grade_monotonic:
  assumes "distinct (map fst K)"
    and "(q, v) \<in> set K"
    and "\<not> answered A q v"
    and "answered A' q v"
    and "\<forall>q'. q' \<noteq> q \<longrightarrow> answer_at A' q' = answer_at A q'"
  shows "grade K A \<le> grade K A'"
proof -
  have step: "answered A' q' v'" if "(q', v') \<in> set K" "answered A q' v'" for q' v'
  proof (cases "q' = q")
    case True
    then have "v' = v"
      using assms(1,2) that(1) by (meson eq_key_imp_eq_value)
    then show ?thesis using True assms(4) by simp
  next
    case False
    then show ?thesis using that(2) assms(5) by (simp add: answered_iff)
  qed
  have "length (filter (\<lambda>(q, v). answered A q v) K) \<le> length (filter (\<lambda>(q, v). answered A' q v) K)"
    by (rule filter_length_mono) (use step in auto)
  then show ?thesis
    unfolding grade_counts by (rule score_of_mono)
qed

theorem grade_monotonic_witness:
  "grade (t_answer_key sample_test) (Some [(text_of ''q1'', JNum 1), (text_of ''q2'', JNum 0), (text_of ''q3'', JNum 0)]) = 67
   \<and> grade (t_answer_key sample_test) (Some [(text_of ''q1'', JNum 1), (text_of ''q2'', JNum 0), (text_of ''q3'', JNum 3)]) = 100
   \<and> grade (t_answer_key sample_test) (Some [(text_of ''q1'', JNum 1), (text_of ''q2'', JNum 0), (text_of ''q3'', JNum 0)])
       \<le> grade (t_answer_key sample_test) (Some [(text_of ''q1'', JNum 1), (text_of ''q2'', JNum 0), (text_of ''q3'', JNum 3)])"
proof -
  let ?K = "t_answer_key sample_test"
  let ?A = "Some [(text_of ''q1'', JNum 1), (text_of ''q2'', JNum 0), (text_of ''q3'', JNum 0)]"
  let ?A' = "Some [(text_of ''q1'', JNum 1), (text_of ''q2'', JNum 0), (text_of ''q3'', JNum 3)]"
  have h1: "distinct (map fst ?K)" and h2: "(text_of ''q3'', JNum 3) \<in> set ?K"
    and h3: "\<not> answered ?A (text_of ''q3'') (JNum 3)" and h4: "answered ?A' (text_of ''q3'') (JNum 3)"
    by code_simp+
  have h5: "\<forall>q'. q' \<noteq> text_of ''q3'' \<longrightarrow> answer_at ?A' q' = answer_at ?A q'"
    by (simp add: answer_at_def)
  have v: "grade ?K ?A = 67" "grade ?K ?A' = 100"
    by code_simp+
  show ?thesis
    using grade_monotonic[OF h1 h2 h3 h4 h5] v by simp
qed

section \<open>Properties of asset deletion\<close>

lemma includes_str_Nil: "includes_str s []"
  by (cases s) auto

lemma includes_str_append: "includes_str (pre @ t @ post) t"
proof (induction pre)
  case Nil
  then show ?case by (cases t) (auto simp: includes_str_Nil)
next
  case (Cons c pre)
  then show ?case by simp
qed

lemma split_on_not_Nil: "split_on d s \<noteq> []"
  by (induction s) (auto split: list.splits)

lemma split_on_first: "split_on d s = y # ys \<Longrightarrow> \<exists>post. s = y @ post"
  by (induction s arbitrary: y ys) (auto split: if_splits list.splits)

lemma split_on_part: "x \<in> set (split_on d s) \<Longrightarrow> \<exists>pre post. s = pre @ x @ post"
proof (induction s arbitrary: x)
  case Nil
  then show ?case by simp
next
  case (Cons c cs)
  show ?case
  proof (cases "c = d")
    case True
    with Cons.prems have "x = [] \<or> x \<in> set (split_on d cs)" by simp
    then show ?thesis
    proof
      assume "x = []"
      then have "c # cs = [] @ x @ (c # cs)" by simp
      then show ?thesis by blast
    next
      assume "x \<in> set (split_on d cs)"
      then obtain pre post where "cs = pre @ x @ post" using Cons.IH by blast
      then have "c # cs = (c # pre) @ x @ post" by simp
      then show ?thesis by blast
    qed
  next
    case False
    obtain y ys where sp: "split_on d cs = y # ys"
      using split_on_not_Nil[of d cs] by (cases "split_on d cs") auto
    with False Cons.prems have "x = c # y \<or> x \<in> set ys" by simp
    then show ?thesis
    proof
      assume x: "x = c # y"
      obtain post where "cs = y @ post" using split_on_first[OF sp] by blast
      then have "c # cs = [] @ x @ post" using x by simp
      then show ?thesis by blast
    next
      assume "x \<in> set ys"
      then have "x \<in> set (split_on d cs)" using sp by simp
      then obtain pre post where "cs = pre @ x @ post" using Cons.IH by blast
      then have "c # cs = (c # pre) @ x @ post" by simp
      then show ?thesis by blast
    qed
  qed
qed

lemma no_dotdot_segment:
  assumes "\<not> includes_str name (text_of ''..'')"
  shows "text_of ''..'' \<notin> set (split_on (char_code CHR ''/'') name)"
proof
  assume "text_of ''..'' \<in> set (split_on (char_code CHR ''/'') name)"
  then obtain pre post where "name = pre @ text_of ''..'' @ post"
    using split_on_part by blast
  then have "includes_str name (text_of ''..'')"
    using includes_str_append[of pre "text_of ''..''" post] by simp
  with assms show False by simp
qed

lemma normalize_no_dotdot:
  "text_of ''..'' \<notin> set xs \<Longrightarrow>
     normalize_segs acc xs = acc @ filter (\<lambda>s. s \<noteq> [] \<and> s \<noteq> text_of ''.'') xs"
  by (induction xs arbitrary: acc) auto

lemma normalize_normal_dir:
  "normal_dir d \<Longrightarrow> normalize_segs acc (d @ xs) = normalize_segs (acc @ d) xs"
  by (induction d arbitrary: acc) (auto simp: normal_dir_def)

lemma path_join_confined:
  assumes "normal_dir dir" and "\<not> includes_str name (text_of ''..'')"
  shows "prefix dir (fst (path_join dir name))"
  using normalize_normal_dir[OF assms(1), of "[]"] normalize_no_dotdot[OF no_dotdot_segment[OF assms(2)]]
  by (simp add: path_join_def)

lemma split_on_plain: "d \<notin> set s \<Longrightarrow> split_on d s = [s]"
  by (induction s) auto

lemma path_join_plain:
  assumes "normal_dir dir" and "plain_name name"
  shows "path_join dir name = (dir @ [name], False)"
proof -
  have sp: "split_on (char_code CHR ''/'') name = [name]"
    using assms(2) by (simp add: plain_name_def split_on_plain)
  have "name \<noteq> text_of ''..''"
    using assms(2) includes_str_append[of "[]" "text_of ''..''" "[]"] by (auto simp: plain_name_def)
  then have "normalize_segs dir [name] = dir @ [name]"
    using assms(2) by (simp add: plain_name_def)
  moreover have "last name \<noteq> char_code CHR ''/''"
  proof
    assume "last name = char_code CHR ''/''"
    moreover have "last name \<in> set name"
      using assms(2) by (intro last_in_set) (simp add: plain_name_def)
    ultimately show False using assms(2) by (simp add: plain_name_def)
  qed
  ultimately show ?thesis
    using normalize_normal_dir[OF assms(1), of "[]" "[name]"] by (simp add: path_join_def sp)
qed

lemma tryDeleteFile_returns: "\<exists>w'. tryDeleteFile dir w url = Inr w'"
  by (simp add: tryDeleteFile_def split: sum.splits)

lemma tryDeleteFile_frame:
  assumes "tryDeleteFile dir w url = Inr w'"
  shows "tests w' = tests w" and "submissions w' = submissions w" and "outages w' = outages w"
    and "dirs w' = dirs w" and "frozen w' = frozen w" and "files w' \<subseteq> files w"
  using assms
  by (auto simp: tryDeleteFile_def delete_file_body_def Let_def
      split: sum.splits option.splits if_splits prod.splits)

lemma tryDeleteFile_confined:
  assumes "normal_dir dir" and "tryDeleteFile dir w url = Inr w'" and "p \<in> files w - files w'"
  shows "prefix dir p"
proof -
  from assms(2,3) obtain u where u: "url = Some u" "\<not> includes_str (strip_uploads u) (text_of ''..'')"
    and p: "p = fst (path_join dir (strip_uploads u))"
    by (auto simp: tryDeleteFile_def delete_file_body_def Let_def
        split: sum.splits option.splits if_splits prod.splits)
  show ?thesis
    unfolding p using path_join_confined[OF assms(1) u(2)] .
qed

lemma strip_uploads_url: "strip_uploads (text_of ''/uploads/'' @ name) = name"
  by (simp add: strip_uploads_def)

text \<open>
  C10.  The helper never throws: it always returns, whatever the file system
  does, and a failure inside it leaves the state as it was but for a logged
  warning.  It changes nothing when the URL is absent or empty, or when the
  file name (the URL without its \<^verbatim>\<open>/uploads/\<close> prefix) is empty or contains
  \<^verbatim>\<open>..\<close>; and any file it does delete lies under the upload folder.
\<close>

theorem tryDeleteFile_safe:
  "(\<exists>w'. tryDeleteFile dir w url = Inr w')
   \<and> (\<forall>e. delete_file_body dir w url = Inl e \<longrightarrow>
          tryDeleteFile dir w url = Inr (w\<lparr>warnings := warnings w @ [e]\<rparr>))
   \<and> (url = None \<or> url = Some []
        \<or> (\<exists>u. url = Some u \<and> (strip_uploads u = [] \<or> includes_str (strip_uploads u) (text_of ''..'')))
        \<longrightarrow> tryDeleteFile dir w url = Inr w)
   \<and> (normal_dir dir \<longrightarrow>
        (\<forall>w'. tryDeleteFile dir w url = Inr w' \<longrightarrow>
           files w' \<subseteq> files w \<and> (\<forall>p \<in> files w - files w'. prefix dir p)))"
proof -
  have 1: "\<exists>w'. tryDeleteFile dir w url = Inr w'"
    by (rule tryDeleteFile_returns)
  have 2: "\<forall>e. delete_file_body dir w url = Inl e \<longrightarrow>
          tryDeleteFile dir w url = Inr (w\<lparr>warnings := warnings w @ [e]\<rparr>)"
    by (simp add: tryDeleteFile_def)
  have 3: "url = None \<or> url = Some []
        \<or> (\<exists>u. url = Some u \<and> (strip_uploads u = [] \<or> includes_str (strip_uploads u) (text_of ''..'')))
        \<longrightarrow> tryDeleteFile dir w url = Inr w"
    by (auto simp: tryDeleteFile_def delete_file_body_def Let_def)
  have 4: "normal_dir dir \<longrightarrow>
        (\<forall>w'. tryDeleteFile dir w url = Inr w' \<longrightarrow>
           files w' \<subseteq> files w \<and> (\<forall>p \<in> files w - files w'. prefix dir p))"
    using tryDeleteFile_frame(6) tryDeleteFile_confined by blast
  show ?thesis using 1 2 3 4 by blast
qed

theorem tryDeleteFile_safe_witness:
  "includes_str (strip_uploads (text_of ''/uploads/../secret.txt'')) (text_of ''..'')
   \<and> tryDeleteFile sample_dir sample_world (Some (text_of ''/uploads/../secret.txt'')) = Inr sample_world
   \<and> normal_dir sample_dir
   \<and> tryDeleteFile sample_dir sample_world (Some (text_of ''/uploads/1700000000000-9f3a.png''))
       = Inr (sample_world\<lparr>files := {}\<rparr>)
   \<and> prefix sample_dir [text_of ''srv'', text_of ''uploads'', text_of ''1700000000000-9f3a.png'']"
proof -
  have a: "includes_str (strip_uploads (text_of ''/uploads/../secret.txt'')) (text_of ''..'')"
    by code_simp
  have b: "normal_dir sample_dir"
    by code_simp
  have c: "tryDeleteFile sample_dir sample_world (Some (text_of ''/uploads/1700000000000-9f3a.png''))
             = Inr (sample_world\<lparr>files := {}\<rparr>)"
    by code_simp
  have d: "[text_of ''srv'', text_of ''uploads'', text_of ''1700000000000-9f3a.png'']
             \<in> files sample_world - files (sample_world\<lparr>files := {}\<rparr>)"
    by (simp add: sample_world_def empty_world_def)
  have "tryDeleteFile sample_dir sample_world (Some (text_of ''/uploads/../secret.txt'')) = Inr sample_world"
    using tryDeleteFile_safe[of sample_dir sample_world "Some (text_of ''/uploads/../secret.txt'')"] a by blast
  moreover have "prefix sample_dir [text_of ''srv'', text_of ''uploads'', text_of ''1700000000000-9f3a.png'']"
    using tryDeleteFile_safe[of sample_dir sample_world "Some (text_of ''/uploads/1700000000000-9f3a.png'')"] b c d
    by blast
  ultimately show ?thesis using a b c by simp
qed

section \<open>Properties of the store\<close>

lemma pool_query_frame:
  assumes "pool_query w = (ok, w1)"
  shows "tests w1 = tests w" and "submissions w1 = submissions w" and "files w1 = files w"
    and "dirs w1 = dirs w" and "frozen w1 = frozen w" and "warnings w1 = warnings w"
  using assms by (auto simp: pool_query_def split: list.splits)

lemma pool_query_up: "outages w = [] \<Longrightarrow> pool_query w = (True, w)"
  by (simp add: pool_query_def)

lemma pool_query_Cons: "outages w = b # bs \<Longrightarrow> pool_query w = (\<not> b, w\<lparr>outages := bs\<rparr>)"
  by (simp add: pool_query_def)

lemma find_id: "find (\<lambda>t. t_id t = tid) ts = Some existing \<Longrightarrow> t_id existing = tid"
  by (induction ts) (auto split: if_splits)

lemma updated_rows:
  assumes "find (\<lambda>t. t_id t = tid) ts = Some existing" and "\<And>t. t_id (f t) = t_id t"
  shows "\<exists>rest. filter (\<lambda>t. t_id t = tid) (map (\<lambda>t. if t_id t = tid then f t else t) ts)
           = f existing # rest"
  using assms(1)
proof (induction ts)
  case Nil
  then show ?case by simp
next
  case (Cons t ts)
  then show ?case using assms(2) by (cases "t_id t = tid") auto
qed

lemma updated_find:
  assumes "find (\<lambda>t. t_id t = tid) ts = Some existing" and "\<And>t. t_id (f t) = t_id t"
  shows "find (\<lambda>t. t_id t = tid) (map (\<lambda>t. if t_id t = tid then f t else t) ts) = Some (f existing)"
  using assms(1)
proof (induction ts)
  case Nil
  then show ?case by simp
next
  case (Cons t ts)
  then show ?case using assms(2) by (cases "t_id t = tid") auto
qed

section \<open>Properties of image replacement\<close>

lemma replace_image_cases:
  assumes "find (\<lambda>t. t_id t = tid) (tests w) = Some existing"
    and "pool_query w = (ok1, w1)" and "pool_query w1 = (ok2, w2)"
  shows "replace_image dir w tid (Some new) =
     (if \<not> ok1 then (Inl (Failed ''failed to replace image''), w1)
      else if \<not> ok2 then (Inl (Failed ''failed to replace image''), w2)
      else (case (if or_null (image_url (t_questions existing)) \<noteq> None
                  then tryDeleteFile dir
                         (w2\<lparr>tests := map (\<lambda>t. if t_id t = tid
                                 then t\<lparr>t_questions := (t_questions existing)\<lparr>image_url := Some (text_of ''/uploads/'' @ new)\<rparr>\<rparr>
                                 else t) (tests w2)\<rparr>)
                         (or_null (image_url (t_questions existing)))
                  else Inr (w2\<lparr>tests := map (\<lambda>t. if t_id t = tid
                                 then t\<lparr>t_questions := (t_questions existing)\<lparr>image_url := Some (text_of ''/uploads/'' @ new)\<rparr>\<rparr>
                                 else t) (tests w2)\<rparr>)) of
              Inl e \<Rightarrow> (Inl (Failed ''failed to replace image''),
                          w2\<lparr>tests := map (\<lambda>t. if t_id t = tid
                                 then t\<lparr>t_questions := (t_questions existing)\<lparr>image_url := Some (text_of ''/uploads/'' @ new)\<rparr>\<rparr>
                                 else t) (tests w2)\<rparr>)
            | Inr w4 \<Rightarrow> (Inr (tid, text_of ''/uploads/'' @ new), w4)))"
proof -
  let ?f = "\<lambda>t. t\<lparr>t_questions := (t_questions existing)\<lparr>image_url := Some (text_of ''/uploads/'' @ new)\<rparr>\<rparr>"
  have t1: "tests w1 = tests w" using pool_query_frame(1)[OF assms(2)] .
  have t2: "tests w2 = tests w" using pool_query_frame(1)[OF assms(3)] t1 by simp
  obtain rest where rows: "filter (\<lambda>t. t_id t = tid) (map (\<lambda>t. if t_id t = tid then ?f t else t) (tests w2))
           = ?f existing # rest"
    using updated_rows[of tid "tests w2" existing ?f] assms(1) t2 by auto
  have id: "t_id existing = tid" using find_id[OF assms(1)] .
  have url: "or_null (Some (text_of ''/uploads/'' @ new)) = Some (text_of ''/uploads/'' @ new)"
    by (simp add: or_null_def)
  show ?thesis
    using assms(1) t1
    by (cases ok1; cases ok2)
       (simp_all add: replace_image_def assms(2,3) update_tests_def Let_def rows id url
          del: append_Cons split: sum.splits)
qed

lemma tryDeleteFile_stored:
  assumes "normal_dir dir" and "plain_name old"
  shows "tryDeleteFile dir w (Some (text_of ''/uploads/'' @ old))
           = Inr (if dir @ [old] \<in> dirs w \<or> (dir @ [old] \<in> files w \<and> dir @ [old] \<in> frozen w)
                  then w\<lparr>warnings := warnings w @ [''unlink failed'']\<rparr>
                  else w\<lparr>files := files w - {dir @ [old]}\<rparr>)"
proof -
  define url where "url = text_of ''/uploads/'' @ old"
  have "old \<noteq> []" "\<not> includes_str old (text_of ''..'')"
    using assms(2) by (simp_all add: plain_name_def)
  moreover have "strip_uploads url = old" "url \<noteq> []"
    by (simp_all add: url_def strip_uploads_def)
  ultimately have "tryDeleteFile dir w (Some url)
           = Inr (if dir @ [old] \<in> dirs w \<or> (dir @ [old] \<in> files w \<and> dir @ [old] \<in> frozen w)
                  then w\<lparr>warnings := warnings w @ [''unlink failed'']\<rparr>
                  else w\<lparr>files := files w - {dir @ [old]}\<rparr>)"
    using path_join_plain[OF assms(1,2)]
    by (auto simp: tryDeleteFile_def delete_file_body_def Let_def)
  then show ?thesis by (simp only: url_def)
qed

text \<open>
  C7, where the claim goes too far.  The test \<open>t1\<close> references
  \<^verbatim>\<open>1700000000000-9f3a.png\<close>, which the file system does not let go.  The
  replacement succeeds and the record references the new image, but the old
  file is not deleted: \<^verbatim>\<open>tryDeleteFile\<close> logs the failure and returns.
\<close>

theorem replace_image_keeps_frozen_file:
  "fst (replace_image sample_dir frozen_world (text_of ''t1'') (Some (text_of ''1700000000999-ab12.png'')))
     = Inr (text_of ''t1'', text_of ''/uploads/1700000000999-ab12.png'')
   \<and> image_url (t_questions (hd (tests (snd (replace_image sample_dir frozen_world (text_of ''t1'')
                                               (Some (text_of ''1700000000999-ab12.png'')))))))
       = Some (text_of ''/uploads/1700000000999-ab12.png'')
   \<and> sample_dir @ [text_of ''1700000000000-9f3a.png'']
       \<in> files (snd (replace_image sample_dir frozen_world (text_of ''t1'')
                        (Some (text_of ''1700000000999-ab12.png''))))
   \<and> files (snd (replace_image sample_dir frozen_world (text_of ''t1'')
                    (Some (text_of ''1700000000999-ab12.png''))))
       = files frozen_world
   \<and> warnings (snd (replace_image sample_dir frozen_world (text_of ''t1'')
                       (Some (text_of ''1700000000999-ab12.png''))))
       = [''unlink failed'']"
  by code_simp

text \<open>
  C7, as amended.  In the image-only replacement the old asset file is deleted
  only after the \<^verbatim>\<open>UPDATE\<close> that stores the new URL has succeeded.  Whenever the
  handler fails, so in particular when the \<^verbatim>\<open>UPDATE\<close> is rejected, no file is
  deleted and the record is as before.  When it succeeds, the record references
  the new asset and no file but the old asset is deleted; the old asset is
  deleted unless the file system refuses to unlink it, in which case the files
  are as before and a warning is logged; and the new file, when it has another
  name than the old one, is still there.  With the store up the handler
  succeeds.  (The old URL is one this server stored: \<^verbatim>\<open>/uploads/\<close> and a
  generated name.)
\<close>

theorem replace_image_order:
  assumes "normal_dir dir"
    and "find (\<lambda>t. t_id t = tid) (tests w) = Some existing"
    and "image_url (t_questions existing) = Some (text_of ''/uploads/'' @ old)"
    and "plain_name old"
  shows "(\<forall>e w'. replace_image dir w tid (Some new) = (Inl e, w') \<longrightarrow>
            files w' = files w \<and> tests w' = tests w)
       \<and> (\<forall>rest. outages w = False # True # rest \<longrightarrow>
            (\<exists>e w'. replace_image dir w tid (Some new) = (Inl e, w') \<and> status e = 500))
       \<and> (\<forall>r w'. replace_image dir w tid (Some new) = (Inr r, w') \<longrightarrow>
            r = (tid, text_of ''/uploads/'' @ new)
            \<and> find (\<lambda>t. t_id t = tid) (tests w')
                = Some (existing\<lparr>t_questions :=
                          (t_questions existing)\<lparr>image_url := Some (text_of ''/uploads/'' @ new)\<rparr>\<rparr>)
            \<and> files w' \<subseteq> files w
            \<and> files w - files w' \<subseteq> {dir @ [old]}
            \<and> (if dir @ [old] \<in> dirs w \<or> (dir @ [old] \<in> files w \<and> dir @ [old] \<in> frozen w)
                then files w' = files w \<and> warnings w' = warnings w @ [''unlink failed'']
                else files w' = files w - {dir @ [old]} \<and> warnings w' = warnings w)
            \<and> (new \<noteq> old \<and> dir @ [new] \<in> files w \<longrightarrow> dir @ [new] \<in> files w'))
       \<and> (outages w = [] \<longrightarrow> (\<exists>r w'. replace_image dir w tid (Some new) = (Inr r, w')))"
proof -
  let ?f = "\<lambda>t. t\<lparr>t_questions := (t_questions existing)\<lparr>image_url := Some (text_of ''/uploads/'' @ new)\<rparr>\<rparr>"
  let ?stuck = "dir @ [old] \<in> dirs w \<or> (dir @ [old] \<in> files w \<and> dir @ [old] \<in> frozen w)"
  obtain ok1 w1 where q1: "pool_query w = (ok1, w1)" by (cases "pool_query w")
  obtain ok2 w2 where q2: "pool_query w1 = (ok2, w2)" by (cases "pool_query w1")
  let ?w3 = "w2\<lparr>tests := map (\<lambda>t. if t_id t = tid then ?f t else t) (tests w2)\<rparr>"
  define w4 where "w4 = (if ?stuck then ?w3\<lparr>warnings := warnings ?w3 @ [''unlink failed'']\<rparr>
                          else ?w3\<lparr>files := files ?w3 - {dir @ [old]}\<rparr>)"
  note f1 = pool_query_frame[OF q1] and f2 = pool_query_frame[OF q2]
  have old_url: "or_null (image_url (t_questions existing)) = Some (text_of ''/uploads/'' @ old)"
    by (simp add: assms(3) or_null_def)
  have del: "tryDeleteFile dir ?w3 (Some (text_of ''/uploads/'' @ old)) = Inr w4"
    unfolding tryDeleteFile_stored[OF assms(1,4)] w4_def using f1 f2 by simp
  have run: "replace_image dir w tid (Some new) =
     (if \<not> ok1 then (Inl (Failed ''failed to replace image''), w1)
      else if \<not> ok2 then (Inl (Failed ''failed to replace image''), w2)
      else (Inr (tid, text_of ''/uploads/'' @ new), w4))"
    unfolding replace_image_cases[OF assms(2) q1 q2] old_url
    by (simp add: del del: append_Cons)
  have found: "find (\<lambda>t. t_id t = tid) (map (\<lambda>t. if t_id t = tid then ?f t else t) (tests w2))
                 = Some (?f existing)"
    using updated_find[of tid "tests w" existing ?f] assms(2) f1(1) f2(1) by simp
  have w4: "tests w4 = map (\<lambda>t. if t_id t = tid then ?f t else t) (tests w2)"
    "files w4 = (if ?stuck then files w else files w - {dir @ [old]})"
    "warnings w4 = (if ?stuck then warnings w @ [''unlink failed''] else warnings w)"
    using f1 f2 by (simp_all add: w4_def)
  have 1: "\<forall>e w'. replace_image dir w tid (Some new) = (Inl e, w') \<longrightarrow>
            files w' = files w \<and> tests w' = tests w"
    unfolding run using f1 f2 by (auto split: if_splits)
  have 2: "\<forall>rest. outages w = False # True # rest \<longrightarrow>
            (\<exists>e w'. replace_image dir w tid (Some new) = (Inl e, w') \<and> status e = 500)"
  proof (intro allI impI)
    fix rest
    assume o: "outages w = False # True # rest"
    have "ok1" "w1 = w\<lparr>outages := True # rest\<rparr>"
      using q1 pool_query_Cons[OF o] by simp_all
    then have "\<not> ok2"
      using q2 pool_query_Cons[of w1 True rest] by simp
    then show "\<exists>e w'. replace_image dir w tid (Some new) = (Inl e, w') \<and> status e = 500"
      unfolding run using \<open>ok1\<close> by simp
  qed
  have 3: "r = (tid, text_of ''/uploads/'' @ new)
            \<and> find (\<lambda>t. t_id t = tid) (tests w') = Some (?f existing)
            \<and> files w' \<subseteq> files w
            \<and> files w - files w' \<subseteq> {dir @ [old]}
            \<and> (if ?stuck
                then files w' = files w \<and> warnings w' = warnings w @ [''unlink failed'']
                else files w' = files w - {dir @ [old]} \<and> warnings w' = warnings w)
            \<and> (new \<noteq> old \<and> dir @ [new] \<in> files w \<longrightarrow> dir @ [new] \<in> files w')"
    if "replace_image dir w tid (Some new) = (Inr r, w')" for r w'
  proof -
    from that have r: "r = (tid, text_of ''/uploads/'' @ new)" and w': "w' = w4"
      unfolding run by (simp_all split: if_splits)
    have t: "find (\<lambda>t. t_id t = tid) (tests w') = Some (?f existing)"
      unfolding w' w4(1) by (rule found)
    have fs: "files w' = (if ?stuck then files w else files w - {dir @ [old]})"
      and ws: "warnings w' = (if ?stuck then warnings w @ [''unlink failed''] else warnings w)"
      unfolding w' by (rule w4(2), rule w4(3))
    show ?thesis
      using r t fs ws by (cases ?stuck) auto
  qed
  have 4: "outages w = [] \<longrightarrow> (\<exists>r w'. replace_image dir w tid (Some new) = (Inr r, w'))"
  proof
    assume o: "outages w = []"
    then have "ok1" "w1 = w" using q1 pool_query_up[OF o] by simp_all
    then have "ok2" using q2 pool_query_up[of w1] o by simp
    then show "\<exists>r w'. replace_image dir w tid (Some new) = (Inr r, w')"
      unfolding run using \<open>ok1\<close> by simp
  qed
  show ?thesis using 1 2 3 4 by blast
qed

theorem replace_image_order_witness:
  "fst (replace_image sample_dir (uploaded_world\<lparr>outages := [False, True]\<rparr>) (text_of ''t1'')
          (Some (text_of ''1700000000999-ab12.png'')))
     = Inl (Failed ''failed to replace image'')
   \<and> files (snd (replace_image sample_dir (uploaded_world\<lparr>outages := [False, True]\<rparr>) (text_of ''t1'')
                 (Some (text_of ''1700000000999-ab12.png''))))
       = files uploaded_world
   \<and> fst (replace_image sample_dir uploaded_world (text_of ''t1'') (Some (text_of ''1700000000999-ab12.png'')))
       = Inr (text_of ''t1'', text_of ''/uploads/1700000000999-ab12.png'')
   \<and> files (snd (replace_image sample_dir uploaded_world (text_of ''t1'')
                    (Some (text_of ''1700000000999-ab12.png''))))
       = files uploaded_world - {sample_dir @ [text_of ''1700000000000-9f3a.png'']}
   \<and> sample_dir @ [text_of ''1700000000999-ab12.png'']
       \<in> files (snd (replace_image sample_dir uploaded_world (text_of ''t1'')
                        (Some (text_of ''1700000000999-ab12.png''))))
   \<and> files (snd (replace_image sample_dir frozen_world (text_of ''t1'')
                    (Some (text_of ''1700000000999-ab12.png''))))
       \<subseteq> files frozen_world"
proof -
  let ?new = "text_of ''1700000000999-ab12.png''"
  let ?old = "text_of ''1700000000000-9f3a.png''"
  let ?down = "uploaded_world\<lparr>outages := [False, True]\<rparr>"
  have h1: "normal_dir sample_dir"
    and h2: "find (\<lambda>t. t_id t = text_of ''t1'') (tests uploaded_world) = Some sample_test"
    and h2': "find (\<lambda>t. t_id t = text_of ''t1'') (tests ?down) = Some sample_test"
    and h2'': "find (\<lambda>t. t_id t = text_of ''t1'') (tests frozen_world) = Some sample_test"
    and h3: "image_url (t_questions sample_test) = Some (text_of ''/uploads/'' @ ?old)"
    and h4: "plain_name ?old"
    by code_simp+
  have ne: "?new \<noteq> ?old"
    by code_simp
  have stuck: "\<not> (sample_dir @ [?old] \<in> dirs uploaded_world
                  \<or> (sample_dir @ [?old] \<in> files uploaded_world \<and> sample_dir @ [?old] \<in> frozen uploaded_world))"
    by code_simp
  have there: "sample_dir @ [?new] \<in> files uploaded_world"
    by code_simp
  have e1: "fst (replace_image sample_dir ?down (text_of ''t1'') (Some ?new)) = Inl (Failed ''failed to replace image'')"
    and e3: "fst (replace_image sample_dir uploaded_world (text_of ''t1'') (Some ?new))
               = Inr (text_of ''t1'', text_of ''/uploads/1700000000999-ab12.png'')"
    and e5: "fst (replace_image sample_dir frozen_world (text_of ''t1'') (Some ?new))
               = Inr (text_of ''t1'', text_of ''/uploads/1700000000999-ab12.png'')"
    by code_simp+
  have "files (snd (replace_image sample_dir ?down (text_of ''t1'') (Some ?new))) = files ?down"
    using replace_image_order[OF h1 h2' h3 h4, of ?new] e1
    by (metis prod.collapse)
  then have e2: "files (snd (replace_image sample_dir ?down (text_of ''t1'') (Some ?new))) = files uploaded_world"
    by simp
  have run: "replace_image sample_dir uploaded_world (text_of ''t1'') (Some ?new)
               = (Inr (text_of ''t1'', text_of ''/uploads/1700000000999-ab12.png''),
                  snd (replace_image sample_dir uploaded_world (text_of ''t1'') (Some ?new)))"
    using e3 by (metis prod.collapse)
  note ok = replace_image_order[OF h1 h2 h3 h4, of ?new, THEN conjunct2, THEN conjunct2, THEN conjunct1,
      rule_format, OF run]
  have e4: "files (snd (replace_image sample_dir uploaded_world (text_of ''t1'') (Some ?new)))
              = files uploaded_world - {sample_dir @ [?old]}"
    using ok stuck by simp
  have e6: "sample_dir @ [?new] \<in> files (snd (replace_image sample_dir uploaded_world (text_of ''t1'') (Some ?new)))"
    using ok ne there by blast
  have e7: "files (snd (replace_image sample_dir frozen_world (text_of ''t1'') (Some ?new))) \<subseteq> files frozen_world"
    using replace_image_order[OF h1 h2'' h3 h4, of ?new] e5
    by (metis prod.collapse)
  show ?thesis using e1 e2 e3 e4 e6 e7 by simp
qed

text \<open>A test that had no image before: nothing is deleted.\<close>

lemma replace_image_first_image:
  assumes "find (\<lambda>t. t_id t = tid) (tests w) = Some existing"
    and "or_null (image_url (t_questions existing)) = None"
    and "replace_image dir w tid (Some new) = (Inr r, w')"
  shows "files w' = files w"
    and "find (\<lambda>t. t_id t = tid) (tests w')
           = Some (existing\<lparr>t_questions :=
                     (t_questions existing)\<lparr>image_url := Some (text_of ''/uploads/'' @ new)\<rparr>\<rparr>)"
proof -
  let ?f = "\<lambda>t. t\<lparr>t_questions := (t_questions existing)\<lparr>image_url := Some (text_of ''/uploads/'' @ new)\<rparr>\<rparr>"
  obtain ok1 w1 where q1: "pool_query w = (ok1, w1)" by (cases "pool_query w")
  obtain ok2 w2 where q2: "pool_query w1 = (ok2, w2)" by (cases "pool_query w1")
  note f1 = pool_query_frame[OF q1] and f2 = pool_query_frame[OF q2]
  have w': "w' = w2\<lparr>tests := map (\<lambda>t. if t_id t = tid then ?f t else t) (tests w2)\<rparr>"
    using assms(3) unfolding replace_image_cases[OF assms(1) q1 q2] assms(2)
    by (simp split: if_splits)
  show "files w' = files w"
    using f1 f2 by (simp add: w')
  show "find (\<lambda>t. t_id t = tid) (tests w') = Some (?f existing)"
    using updated_find[of tid "tests w" existing ?f] assms(1) f1(1) f2(1) by (simp add: w')
qed

section \<open>Properties of editing\<close>

lemma edit_image_returns:
  "\<exists>u w'. edit_image dir w imageUrl wantsRemove upl = Inr (u, w')
     \<and> tests w' = tests w \<and> outages w' = outages w \<and> submissions w' = submissions w"
proof -
  obtain wa where a: "tryDeleteFile dir w imageUrl = Inr wa"
    using tryDeleteFile_returns by blast
  note fa = tryDeleteFile_frame(1-3)[OF a]
  show ?thesis
    using a fa by (cases upl; cases wantsRemove; cases imageUrl) (simp_all add: edit_image_def)
qed

lemma edit_store_result:
  assumes "find (\<lambda>t. t_id t = tid) (tests w1) = Some existing"
    and "edit_store uc dir w1 tid req existing c n m = (Inr r, w')"
  shows "\<exists>row. r = Some row \<and> find (\<lambda>t. t_id t = tid) (tests w') = Some row
           \<and> t_answer_key row = m
           \<and> num_questions (t_questions row) = Some n
           \<and> choices_count (t_questions row) = Some (of_nat c)
           \<and> choices (t_questions row) = Some (map (\<lambda>ch. [ch]) (letters_of c))"
proof -
  obtain u w2 where img: "edit_image dir w1 (or_null (image_url (t_questions existing)))
             (toLowerCase uc (or_empty (e_remove_image req)) = text_of ''true'') (e_file req) = Inr (u, w2)"
    and t2: "tests w2 = tests w1"
    using edit_image_returns by blast
  obtain ok3 w3 where q3: "pool_query w2 = (ok3, w3)" by (cases "pool_query w2")
  have t3: "tests w3 = tests w1" using pool_query_frame(1)[OF q3] t2 by simp
  let ?f = "\<lambda>t. t\<lparr>t_subject := (case e_subject req of Some x \<Rightarrow> x | None \<Rightarrow> t_subject existing),
                    t_level := (case e_level req of Some x \<Rightarrow> x | None \<Rightarrow> t_level existing),
                    t_title := (case e_title req of Some x \<Rightarrow> x | None \<Rightarrow> t_title existing),
                    t_questions :=
                      (t_questions existing)
                        \<lparr>num_questions := Some n,
                         choices_count := Some (of_nat c),
                         choices := Some (map (\<lambda>ch. [ch]) (letters_of c)),
                         image_url := u\<rparr>,
                    t_answer_key := m\<rparr>"
  obtain rest where rows: "filter (\<lambda>t. t_id t = tid) (map (\<lambda>t. if t_id t = tid then ?f t else t) (tests w3))
           = ?f existing # rest"
    using updated_rows[of tid "tests w3" existing ?f] assms(1) t3 by auto
  have found: "find (\<lambda>t. t_id t = tid) (map (\<lambda>t. if t_id t = tid then ?f t else t) (tests w3))
                 = Some (?f existing)"
    using updated_find[of tid "tests w3" existing ?f] assms(1) t3 by auto
  have ok: ok3
    using assms(2) by (cases ok3) (simp_all add: edit_store_def img q3)
  have "r = Some (?f existing)"
    and "w' = w3\<lparr>tests := map (\<lambda>t. if t_id t = tid then ?f t else t) (tests w3)\<rparr>"
    using assms(2) ok by (simp_all add: edit_store_def img q3 update_tests_def Let_def rows)
  then show ?thesis using found by (intro exI[of _ "?f existing"]) simp
qed

lemma edit_store_up:
  assumes "find (\<lambda>t. t_id t = tid) (tests w1) = Some existing" and "outages w1 = []"
  shows "\<exists>r w'. edit_store uc dir w1 tid req existing c n m = (Inr r, w')"
proof -
  obtain u w2 where img: "edit_image dir w1 (or_null (image_url (t_questions existing)))
             (toLowerCase uc (or_empty (e_remove_image req)) = text_of ''true'') (e_file req) = Inr (u, w2)"
    and o2: "outages w2 = outages w1"
    using edit_image_returns by blast
  have "pool_query w2 = (True, w2)" using pool_query_up o2 assms(2) by simp
  then show ?thesis
    by (simp add: edit_store_def img update_tests_def Let_def)
qed

lemma key_loop_error: "key_loop letters s n i m = Inl e \<Longrightarrow> e = Key_letters letters"
proof (induction letters s n i m rule: key_loop.induct)
  case (1 letters keyStr n i m)
  show ?case
  proof (cases "of_nat i < n")
    case False
    then show ?thesis using "1.prems" by (subst (asm) key_loop.simps) simp
  next
    case True
    define idx where "idx = (if i < length keyStr then indexOf letters (keyStr ! i) else - 1)"
    show ?thesis
    proof (cases "idx = - 1")
      case True
      then show ?thesis
        using "1.prems" \<open>of_nat i < n\<close>
        by (subst (asm) key_loop.simps) (simp add: idx_def Let_def)
    next
      case False
      then have "key_loop letters keyStr n (i + 1)
                   (AList.update (text_of ''q'' @ show_nat (i + 1)) (JNum (of_int idx)) m) = Inl e"
        using "1.prems" \<open>of_nat i < n\<close>
        by (subst (asm) key_loop.simps) (simp add: idx_def Let_def)
      then show ?thesis
        using "1.IH"[OF \<open>of_nat i < n\<close> idx_def False] by simp
    qed
  qed
qed

lemma encode_error_status: "encode_answer_key uc letters n raw = Inl e \<Longrightarrow> status e = 400"
  by (auto simp: encode_answer_key_def Let_def split: if_splits dest: key_loop_error)

lemma edit_test_stores:
  assumes f: "find (\<lambda>t. t_id t = tid) (tests w) = Some existing"
    and "q_type (t_questions existing) = text_of ''image''"
    and o: "outages w = []"
    and "new_choices_count (t_questions existing) req = Inr c"
    and "new_question_count (t_questions existing) req = Inr n"
    and "edit_answer_map uc existing (letters_of c) n (e_answer_key req) = Inr m"
  shows "\<exists>row w'. edit_test uc dir w tid req = (Inr (Some row), w')
           \<and> find (\<lambda>t. t_id t = tid) (tests w') = Some row
           \<and> t_answer_key row = m
           \<and> num_questions (t_questions row) = Some n
           \<and> choices_count (t_questions row) = Some (of_nat c)
           \<and> choices (t_questions row) = Some (map (\<lambda>ch. [ch]) (letters_of c))"
proof -
  have eq: "edit_test uc dir w tid req = edit_store uc dir w tid req existing c n m"
    using assms by (simp add: edit_test_def pool_query_up)
  obtain r w' where st: "edit_store uc dir w tid req existing c n m = (Inr r, w')"
    using edit_store_up[OF f o] by blast
  show ?thesis
    using edit_store_result[OF f st] eq st by auto
qed

lemma edit_test_rejects:
  assumes "find (\<lambda>t. t_id t = tid) (tests w) = Some existing"
    and "q_type (t_questions existing) = text_of ''image''"
    and "outages w = []"
    and "new_choices_count (t_questions existing) req = Inr c"
    and "new_question_count (t_questions existing) req = Inr n"
    and "edit_answer_map uc existing (letters_of c) n (e_answer_key req) = Inl e"
  shows "edit_test uc dir w tid req = (Inl e, w)"
  using assms by (simp add: edit_test_def pool_query_up)

lemma edit_test_success:
  assumes f: "find (\<lambda>t. t_id t = tid) (tests w) = Some existing"
    and run: "edit_test uc dir w tid req = (Inr r, w')"
  shows "\<exists>c n m row.
           new_choices_count (t_questions existing) req = Inr c
           \<and> new_question_count (t_questions existing) req = Inr n
           \<and> edit_answer_map uc existing (letters_of c) n (e_answer_key req) = Inr m
           \<and> r = Some row
           \<and> find (\<lambda>t. t_id t = tid) (tests w') = Some row
           \<and> t_answer_key row = m
           \<and> num_questions (t_questions row) = Some n
           \<and> choices_count (t_questions row) = Some (of_nat c)
           \<and> choices (t_questions row) = Some (map (\<lambda>ch. [ch]) (letters_of c))"
proof -
  obtain ok1 w1 where q1: "pool_query w = (ok1, w1)" by (cases "pool_query w")
  have f1: "find (\<lambda>t. t_id t = tid) (tests w1) = Some existing"
    using pool_query_frame(1)[OF q1] f by simp
  from run q1 f1 obtain c n m where
    c: "new_choices_count (t_questions existing) req = Inr c"
    and n: "new_question_count (t_questions existing) req = Inr n"
    and m: "edit_answer_map uc existing (letters_of c) n (e_answer_key req) = Inr m"
    and st: "edit_store uc dir w1 tid req existing c n m = (Inr r, w')"
    by (auto simp: edit_test_def split: bool.splits if_splits sum.splits)
  show ?thesis
    using edit_store_result[OF f1 st] c n m by blast
qed

text \<open>
  The choice count and the question count that a request asks for: the one it
  carries, or else the stored one.
\<close>

lemma requested_choices_count:
  assumes "C = 4 \<or> C = 5"
    and "e_choices_count req = Some (Finite (of_nat C))
         \<or> (e_choices_count req = None \<and> choices_count q = Some (of_nat C))"
  shows "new_choices_count q req = Inr C"
  using assms by (auto simp: new_choices_count_def current_choices_count_def Let_def)

lemma requested_question_count:
  assumes "1 \<le> N" and "N \<le> 200"
    and "e_num_questions req = Some (Finite (of_nat N))
         \<or> (e_num_questions req = None \<and> num_questions q = Some (of_nat N))"
  shows "new_question_count q req = Inr (of_nat N)"
  using assms by (auto simp: new_question_count_def Let_def)

text \<open>
  C6.  Let an edit request ask for the choice count \<open>C\<close> and the question count
  \<open>N\<close>, each either carried by the request or, when the request leaves it out,
  the stored one.  A supplied answer key is validated and encoded again against
  \<open>N\<close> and the first \<open>C\<close> letters: a key of \<open>N\<close> letters among these is accepted
  and its encoding is what is stored; a key that, once normalised, has another
  length or another letter is refused with a validation error and nothing
  changes.  When the request omits the key, the stored key is left exactly as
  it was, while the stored question count becomes \<open>N\<close>.  No successful edit
  stores anything else.
\<close>

theorem edit_answer_key:
  assumes "find (\<lambda>t. t_id t = tid) (tests w) = Some existing"
    and "C = 4 \<or> C = 5"
    and "e_choices_count req = Some (Finite (of_nat C))
         \<or> (e_choices_count req = None \<and> choices_count (t_questions existing) = Some (of_nat C))"
    and "1 \<le> N" and "N \<le> 200"
    and "e_num_questions req = Some (Finite (of_nat N))
         \<or> (e_num_questions req = None \<and> num_questions (t_questions existing) = Some (of_nat N))"
  shows "(\<forall>r w'. edit_test uc dir w tid req = (Inr r, w') \<longrightarrow>
            (\<exists>row. r = Some row
               \<and> find (\<lambda>t. t_id t = tid) (tests w') = Some row
               \<and> num_questions (t_questions row) = Some (of_nat N)
               \<and> choices_count (t_questions row) = Some (of_nat C)
               \<and> choices (t_questions row) = Some (map (\<lambda>ch. [ch]) (take C (text_of ''ABCDE'')))
               \<and> (case e_answer_key req of
                     None \<Rightarrow> t_answer_key row = t_answer_key existing
                   | Some s \<Rightarrow>
                       encode_answer_key uc (take C (text_of ''ABCDE'')) (of_nat N) (Some s)
                         = Inr (t_answer_key row))))
       \<and> (q_type (t_questions existing) = text_of ''image'' \<and> outages w = [] \<longrightarrow>
            (case e_answer_key req of
               None \<Rightarrow>
                 (\<exists>row w'. edit_test uc dir w tid req = (Inr (Some row), w')
                    \<and> find (\<lambda>t. t_id t = tid) (tests w') = Some row
                    \<and> t_answer_key row = t_answer_key existing
                    \<and> num_questions (t_questions row) = Some (of_nat N))
             | Some s \<Rightarrow>
                 (case encode_answer_key uc (take C (text_of ''ABCDE'')) (of_nat N) (Some s) of
                    Inl e \<Rightarrow> edit_test uc dir w tid req = (Inl e, w) \<and> status e = 400
                  | Inr m \<Rightarrow>
                      (\<exists>row w'. edit_test uc dir w tid req = (Inr (Some row), w')
                         \<and> find (\<lambda>t. t_id t = tid) (tests w') = Some row
                         \<and> t_answer_key row = m
                         \<and> num_questions (t_questions row) = Some (of_nat N)))))
       \<and> (\<forall>s. q_type (t_questions existing) = text_of ''image'' \<and> outages w = []
              \<and> e_answer_key req = Some s \<and> length s = N
              \<and> set s \<subseteq> set (take C (text_of ''ABCDE'')) \<longrightarrow>
            (\<exists>row w'. edit_test uc dir w tid req = (Inr (Some row), w')
               \<and> find (\<lambda>t. t_id t = tid) (tests w') = Some row
               \<and> t_answer_key row = map (key_entry s) [0..<N]))
       \<and> (\<forall>s. q_type (t_questions existing) = text_of ''image'' \<and> outages w = []
              \<and> e_answer_key req = Some s
              \<and> (length (normalise_key uc (Some s)) \<noteq> N
                  \<or> (\<exists>ch \<in> set (normalise_key uc (Some s)). ch \<notin> set (take C (text_of ''ABCDE'')))) \<longrightarrow>
            (\<exists>e. edit_test uc dir w tid req = (Inl e, w) \<and> status e = 400))"
proof -
  note f = assms(1)
  have letters: "take C (text_of ''ABCDE'') = letters_of C"
    by (simp add: letters_of_def)
  have c: "new_choices_count (t_questions existing) req = Inr C"
    using requested_choices_count[OF assms(2,3)] .
  have n: "new_question_count (t_questions existing) req = Inr (of_nat N)"
    using requested_question_count[OF assms(4,5,6)] .
  have 1: "\<exists>row. r = Some row
               \<and> find (\<lambda>t. t_id t = tid) (tests w') = Some row
               \<and> num_questions (t_questions row) = Some (of_nat N)
               \<and> choices_count (t_questions row) = Some (of_nat C)
               \<and> choices (t_questions row) = Some (map (\<lambda>ch. [ch]) (letters_of C))
               \<and> (case e_answer_key req of
                     None \<Rightarrow> t_answer_key row = t_answer_key existing
                   | Some s \<Rightarrow>
                       encode_answer_key uc (letters_of C) (of_nat N) (Some s) = Inr (t_answer_key row))"
    if run: "edit_test uc dir w tid req = (Inr r, w')" for r w'
  proof -
    obtain c' n' m row where
      "new_choices_count (t_questions existing) req = Inr c'"
      "new_question_count (t_questions existing) req = Inr n'"
      and m: "edit_answer_map uc existing (letters_of c') n' (e_answer_key req) = Inr m"
      and row: "r = Some row" "find (\<lambda>t. t_id t = tid) (tests w') = Some row"
        "t_answer_key row = m" "num_questions (t_questions row) = Some n'"
        "choices_count (t_questions row) = Some (of_nat c')"
        "choices (t_questions row) = Some (map (\<lambda>ch. [ch]) (letters_of c'))"
      using edit_test_success[OF f run] by blast
    then have eq: "c' = C" "n' = of_nat N" using c n by simp_all
    have "case e_answer_key req of
            None \<Rightarrow> t_answer_key row = t_answer_key existing
          | Some s \<Rightarrow> encode_answer_key uc (letters_of C) (of_nat N) (Some s) = Inr (t_answer_key row)"
      using m row(3) unfolding eq by (auto simp: edit_answer_map_def split: option.splits)
    then show ?thesis using row unfolding eq by blast
  qed
  have stores: "\<exists>row w'. edit_test uc dir w tid req = (Inr (Some row), w')
                    \<and> find (\<lambda>t. t_id t = tid) (tests w') = Some row
                    \<and> t_answer_key row = m
                    \<and> num_questions (t_questions row) = Some (of_nat N)"
    if "q_type (t_questions existing) = text_of ''image''" "outages w = []"
      "edit_answer_map uc existing (letters_of C) (of_nat N) (e_answer_key req) = Inr m" for m
    using edit_test_stores[OF f that(1,2) c n that(3)] by blast
  have rejects: "edit_test uc dir w tid req = (Inl e, w) \<and> status e = 400"
    if "q_type (t_questions existing) = text_of ''image''" "outages w = []"
      "e_answer_key req = Some s"
      "encode_answer_key uc (letters_of C) (of_nat N) (Some s) = Inl e" for s e
  proof -
    have "edit_answer_map uc existing (letters_of C) (of_nat N) (e_answer_key req) = Inl e"
      using that(3,4) by (simp add: edit_answer_map_def)
    then show ?thesis
      using edit_test_rejects[OF f that(1,2) c n] encode_error_status[OF that(4)] by simp
  qed
  have 2: "case e_answer_key req of
               None \<Rightarrow>
                 (\<exists>row w'. edit_test uc dir w tid req = (Inr (Some row), w')
                    \<and> find (\<lambda>t. t_id t = tid) (tests w') = Some row
                    \<and> t_answer_key row = t_answer_key existing
                    \<and> num_questions (t_questions row) = Some (of_nat N))
             | Some s \<Rightarrow>
                 (case encode_answer_key uc (letters_of C) (of_nat N) (Some s) of
                    Inl e \<Rightarrow> edit_test uc dir w tid req = (Inl e, w) \<and> status e = 400
                  | Inr m \<Rightarrow>
                      (\<exists>row w'. edit_test uc dir w tid req = (Inr (Some row), w')
                         \<and> find (\<lambda>t. t_id t = tid) (tests w') = Some row
                         \<and> t_answer_key row = m
                         \<and> num_questions (t_questions row) = Some (of_nat N)))"
    if h: "q_type (t_questions existing) = text_of ''image''" "outages w = []"
  proof (cases "e_answer_key req")
    case None
    then have "edit_answer_map uc existing (letters_of C) (of_nat N) (e_answer_key req)
                 = Inr (t_answer_key existing)"
      by (simp add: edit_answer_map_def)
    then show ?thesis using stores[OF h] None by simp
  next
    case (Some s)
    show ?thesis
    proof (cases "encode_answer_key uc (letters_of C) (of_nat N) (Some s)")
      case (Inl e)
      then show ?thesis using rejects[OF h Some Inl] Some by simp
    next
      case (Inr m)
      then have "edit_answer_map uc existing (letters_of C) (of_nat N) (e_answer_key req) = Inr m"
        using Some by (simp add: edit_answer_map_def)
      then show ?thesis using stores[OF h] Some Inr by simp
    qed
  qed
  have 3: "\<exists>row w'. edit_test uc dir w tid req = (Inr (Some row), w')
               \<and> find (\<lambda>t. t_id t = tid) (tests w') = Some row
               \<and> t_answer_key row = map (key_entry s) [0..<N]"
    if h: "q_type (t_questions existing) = text_of ''image''" "outages w = []"
      and s: "e_answer_key req = Some s" "length s = N" "set s \<subseteq> set (letters_of C)" for s
  proof -
    have "encode_answer_key uc (letters_of C) (of_nat N) (Some s) = Inr (map (key_entry s) [0..<N])"
      using encode_plain_key[OF assms(2) s(3), of uc] s(2) by simp
    then have "edit_answer_map uc existing (letters_of C) (of_nat N) (e_answer_key req)
                 = Inr (map (key_entry s) [0..<N])"
      using s(1) by (simp add: edit_answer_map_def)
    then show ?thesis using stores[OF h] by blast
  qed
  have 4: "\<exists>e. edit_test uc dir w tid req = (Inl e, w) \<and> status e = 400"
    if h: "q_type (t_questions existing) = text_of ''image''" "outages w = []"
      and s: "e_answer_key req = Some s"
      and bad: "length (normalise_key uc (Some s)) \<noteq> N
                  \<or> (\<exists>ch \<in> set (normalise_key uc (Some s)). ch \<notin> set (letters_of C))" for s
  proof -
    have "rat_of_nat (length (normalise_key uc (Some s))) \<noteq> of_nat N
            \<or> (\<exists>ch \<in> set (normalise_key uc (Some s)). ch \<notin> set (letters_of C))"
      using bad by simp
    then have "encode_answer_key uc (letters_of C) (of_nat N) (Some s) = Inl (Key_length (of_nat N))
          \<or> encode_answer_key uc (letters_of C) (of_nat N) (Some s) = Inl (Key_letters (letters_of C))"
      by (rule encode_rejects)
    then show ?thesis using rejects[OF h s] by blast
  qed
  show ?thesis
    unfolding letters using 1 2 3 4 by blast
qed

theorem edit_answer_key_witness:
  "num_questions (t_questions sample_test) = Some 3
   \<and> choices_count (t_questions sample_test) = Some 4
   \<and> (\<exists>row w'. edit_test sample_unicode sample_dir sample_world (text_of ''t1'') sample_edit
                    = (Inr (Some row), w')
          \<and> t_answer_key row = t_answer_key sample_test
          \<and> num_questions (t_questions row) = Some 5)
   \<and> (\<exists>row w'. edit_test sample_unicode sample_dir sample_world (text_of ''t1'') key_edit
                    = (Inr (Some row), w')
          \<and> t_answer_key row
              = [(text_of ''q1'', JNum 0), (text_of ''q2'', JNum 1), (text_of ''q3'', JNum 2),
                 (text_of ''q4'', JNum 3), (text_of ''q5'', JNum 4)])
   \<and> (\<exists>e. edit_test sample_unicode sample_dir sample_world (text_of ''t1'')
               (key_edit\<lparr>e_choices_count := None\<rparr>) = (Inl e, sample_world)
          \<and> status e = 400)"
proof -
  let ?old = "key_edit\<lparr>e_choices_count := None\<rparr>"
  have h: "find (\<lambda>t. t_id t = text_of ''t1'') (tests sample_world) = Some sample_test"
    and a: "q_type (t_questions sample_test) = text_of ''image''"
    and e: "outages sample_world = []"
    and f: "num_questions (t_questions sample_test) = Some 3"
    and g: "choices_count (t_questions sample_test) = Some 4"
    by code_simp+
  have c4: "e_choices_count sample_edit = Some (Finite (of_nat 4))
            \<or> (e_choices_count sample_edit = None
                 \<and> choices_count (t_questions sample_test) = Some (of_nat 4))"
    and c4': "e_choices_count ?old = Some (Finite (of_nat 4))
            \<or> (e_choices_count ?old = None
                 \<and> choices_count (t_questions sample_test) = Some (of_nat 4))"
    and c5: "e_choices_count key_edit = Some (Finite (of_nat 5))
            \<or> (e_choices_count key_edit = None
                 \<and> choices_count (t_questions sample_test) = Some (of_nat 5))"
    by (simp_all add: sample_edit_def key_edit_def g)
  have n5: "e_num_questions sample_edit = Some (Finite (of_nat 5))
            \<or> (e_num_questions sample_edit = None
                 \<and> num_questions (t_questions sample_test) = Some (of_nat 5))"
    and n5': "e_num_questions key_edit = Some (Finite (of_nat 5))
            \<or> (e_num_questions key_edit = None
                 \<and> num_questions (t_questions sample_test) = Some (of_nat 5))"
    and n5'': "e_num_questions ?old = Some (Finite (of_nat 5))
            \<or> (e_num_questions ?old = None
                 \<and> num_questions (t_questions sample_test) = Some (of_nat 5))"
    by (simp_all add: sample_edit_def key_edit_def)
  have four: "(4::nat) = 4 \<or> (4::nat) = 5" and five: "(5::nat) = 4 \<or> (5::nat) = 5"
    and lo: "(1::nat) \<le> 5" and hi: "(5::nat) \<le> 200"
    by simp_all
  have k0: "e_answer_key sample_edit = None"
    and k1: "e_answer_key key_edit = Some (text_of ''abcde'')"
    and k2: "e_answer_key ?old = Some (text_of ''abcde'')"
    by (simp_all add: sample_edit_def key_edit_def)
  have enc: "encode_answer_key sample_unicode (take 5 (text_of ''ABCDE'')) (of_nat 5)
               (Some (text_of ''abcde''))
             = Inr [(text_of ''q1'', JNum 0), (text_of ''q2'', JNum 1), (text_of ''q3'', JNum 2),
                    (text_of ''q4'', JNum 3), (text_of ''q5'', JNum 4)]"
    by code_simp
  have bad: "length (normalise_key sample_unicode (Some (text_of ''abcde''))) \<noteq> 5
             \<or> (\<exists>ch \<in> set (normalise_key sample_unicode (Some (text_of ''abcde''))).
                   ch \<notin> set (take 4 (text_of ''ABCDE'')))"
    by code_simp
  have 1: "\<exists>row w'. edit_test sample_unicode sample_dir sample_world (text_of ''t1'') sample_edit
                    = (Inr (Some row), w')
          \<and> t_answer_key row = t_answer_key sample_test
          \<and> num_questions (t_questions row) = Some 5"
    using edit_answer_key[OF h four c4 lo hi n5, of sample_unicode sample_dir] a e k0 by auto
  have 2: "\<exists>row w'. edit_test sample_unicode sample_dir sample_world (text_of ''t1'') key_edit
                    = (Inr (Some row), w')
          \<and> t_answer_key row
              = [(text_of ''q1'', JNum 0), (text_of ''q2'', JNum 1), (text_of ''q3'', JNum 2),
                 (text_of ''q4'', JNum 3), (text_of ''q5'', JNum 4)]"
    using edit_answer_key[OF h five c5 lo hi n5', of sample_unicode sample_dir] a e k1 enc by auto
  have 3: "\<exists>e. edit_test sample_unicode sample_dir sample_world (text_of ''t1'') ?old
                 = (Inl e, sample_world)
          \<and> status e = 400"
    using edit_answer_key[OF h four c4' lo hi n5'', of sample_unicode sample_dir] a e k2 bad by blast
  show ?thesis using f g 1 2 3 by simp
qed

section \<open>Properties of test deletion\<close>

lemma find_Some_ex: "find P xs = Some x \<Longrightarrow> list_ex P xs \<and> filter P xs \<noteq> []"
  by (induction xs) (auto split: if_splits)

lemma delete_test_not_null:
  assumes "test_id_not_null sch"
    and "find (\<lambda>t. t_id t = tid) (tests w) = Some t"
    and "list_ex (\<lambda>s. s_test_id s = Some tid) (submissions w)"
    and "outages w = []"
  shows "delete_test sch dir w tid = (Inl (Failed ''failed to delete test''), w)"
  using assms by (simp add: delete_test_def pool_query_up detach_submissions_def)

lemma detached_no_refs:
  "\<not> list_ex (\<lambda>s. s_test_id s = Some tid)
       (map (\<lambda>s. if s_test_id s = Some tid then s\<lparr>s_test_id := None\<rparr> else s) subs)"
  by (induction subs) auto

lemma delete_test_nullable:
  assumes "\<not> test_id_not_null sch"
    and "find (\<lambda>t. t_id t = tid) (tests w) = Some t"
    and "outages w = []"
  shows "\<exists>w'. delete_test sch dir w tid = (Inr (), w')
           \<and> submissions w'
               = map (\<lambda>s. if s_test_id s = Some tid then s\<lparr>s_test_id := None\<rparr> else s) (submissions w)
           \<and> tests w' = filter (\<lambda>t. t_id t \<noteq> tid) (tests w)
           \<and> outages w' = []"
proof -
  let ?subs = "map (\<lambda>s. if s_test_id s = Some tid then s\<lparr>s_test_id := None\<rparr> else s) (submissions w)"
  let ?w2 = "w\<lparr>submissions := ?subs\<rparr>"
  let ?w3 = "?w2\<lparr>tests := filter (\<lambda>t. t_id t \<noteq> tid) (tests w)\<rparr>"
  have det: "detach_submissions sch w tid = (None, ?w2)"
    using assms(1,3) by (simp add: detach_submissions_def pool_query_up)
  obtain r rs where rows: "map t_id (filter (\<lambda>t. t_id t = tid) (tests w)) = r # rs"
    using find_Some_ex[OF assms(2)] by (cases "filter (\<lambda>t. t_id t = tid) (tests w)") auto
  have del: "delete_tests_row sch ?w2 tid = (Inr (r # rs), ?w3)"
    using assms(3) detached_no_refs[of tid "submissions w"] rows
    by (simp add: delete_tests_row_def pool_query_up Let_def)
  obtain w4 where w4: "tryDeleteFile dir ?w3 (or_null (image_url (t_questions t))) = Inr w4"
    using tryDeleteFile_returns by blast
  note fr = tryDeleteFile_frame(1-3)[OF w4]
  have "delete_test sch dir w tid
          = (Inr (), if or_null (image_url (t_questions t)) \<noteq> None then w4 else ?w3)"
    using assms(2,3) by (simp add: delete_test_def pool_query_up det del w4 Let_def)
  then show ?thesis using fr assms(3) by auto
qed

lemma find_filtered_out: "find P (filter (\<lambda>x. \<not> P x) xs) = None"
  by (induction xs) auto

lemma find_by_key:
  assumes "distinct (map s_id subs)" and "s \<in> set subs" and "\<And>x. s_id (g x) = s_id x"
  shows "find (\<lambda>x. s_id x = s_id s) (map g subs) = Some (g s)"
  using assms(1,2)
proof (induction subs)
  case Nil
  then show ?case by simp
next
  case (Cons x xs)
  then show ?case using assms(3) by (cases "x = s") (auto simp: image_iff)
qed

text \<open>
  With a table definition that allows \<^verbatim>\<open>NULL\<close> in \<^verbatim>\<open>test_id\<close>, as the comment
  above the handler asks for, the submissions of the test are detached, none
  is deleted, the test is deleted, and the detail of each of them is still
  served, with the title \<^verbatim>\<open>(deleted test)\<close>.
\<close>

lemma delete_test_detaches:
  assumes "\<not> test_id_not_null sch"
    and "find (\<lambda>t. t_id t = tid) (tests w) = Some t"
    and "outages w = []"
    and "distinct (map s_id (submissions w))"
    and "s \<in> set (submissions w)" and "s_test_id s = Some tid"
  shows "\<exists>w' d. delete_test sch dir w tid = (Inr (), w')
           \<and> map s_id (submissions w') = map s_id (submissions w)
           \<and> find (\<lambda>t. t_id t = tid) (tests w') = None
           \<and> get_submission w' (s_id s) = (Inr d, w')
           \<and> d_row d = s\<lparr>s_test_id := None\<rparr>
           \<and> d_title d = text_of ''(deleted test)''"
proof -
  let ?g = "\<lambda>s. if s_test_id s = Some tid then s\<lparr>s_test_id := None\<rparr> else s"
  obtain w' where run: "delete_test sch dir w tid = (Inr (), w')"
    and subs: "submissions w' = map ?g (submissions w)"
    and ts: "tests w' = filter (\<lambda>t. t_id t \<noteq> tid) (tests w)"
    and up: "outages w' = []"
    using delete_test_nullable[OF assms(1-3)] by blast
  have ids: "map s_id (submissions w') = map s_id (submissions w)"
    unfolding subs by (simp add: comp_def if_distrib)
  have gone: "find (\<lambda>t. t_id t = tid) (tests w') = None"
    unfolding ts by (rule find_filtered_out)
  have row: "find (\<lambda>x. s_id x = s_id s) (submissions w') = Some (s\<lparr>s_test_id := None\<rparr>)"
    unfolding subs using find_by_key[OF assms(4,5), of ?g] assms(6) by simp
  have "get_submission w' (s_id s)
          = (Inr \<lparr>d_row = s\<lparr>s_test_id := None\<rparr>, d_title = text_of ''(deleted test)'',
                  d_questions = None, d_answer_key = None\<rparr>, w')"
    by (simp add: get_submission_def pool_query_up[OF up] row joined_test_def)
  then show ?thesis using run ids gone by auto
qed

text \<open>
  C1, where the repository departs from it.  The table definition of
  sql/schema.sql declares \<^verbatim>\<open>test_id\<close> \<^verbatim>\<open>NOT NULL\<close>, so for a test with a submission the
  detaching \<^verbatim>\<open>UPDATE\<close> is rejected: the request fails with status 500, the test is
  not deleted, and the submission's detail still shows the test's own title.
\<close>

theorem delete_test_rejected_by_schema:
  "delete_test schema_sql sample_dir graded_world (text_of ''t1'')
     = (Inl (Failed ''failed to delete test''), graded_world)
   \<and> status (Failed ''failed to delete test'') = 500
   \<and> get_submission graded_world (text_of ''s1'')
       = (Inr \<lparr>d_row = sample_submission,
                d_title = text_of ''ENGLISH beginner Test'',
                d_questions = Some (t_questions sample_test),
                d_answer_key = Some (t_answer_key sample_test)\<rparr>, graded_world)"
  by code_simp

lemma delete_test_nullable_sample:
  "fst (delete_test schema_nullable sample_dir graded_world (text_of ''t1'')) = Inr ()
   \<and> submissions (snd (delete_test schema_nullable sample_dir graded_world (text_of ''t1'')))
       = [sample_submission\<lparr>s_test_id := None\<rparr>]
   \<and> tests (snd (delete_test schema_nullable sample_dir graded_world (text_of ''t1''))) = []
   \<and> files (snd (delete_test schema_nullable sample_dir graded_world (text_of ''t1''))) = {}
   \<and> map_sum id d_title
        (fst (get_submission (snd (delete_test schema_nullable sample_dir graded_world (text_of ''t1''))) (text_of ''s1'')))
       = Inr (text_of ''(deleted test)'')"
  by code_simp

section \<open>Properties of test selection\<close>

lemma sort_key_first:
  assumes "xs \<noteq> []"
  shows "\<exists>r rs. sort_key f xs = r # rs \<and> r \<in> set xs \<and> (\<forall>x \<in> set xs. f r \<le> f x)"
proof -
  have ne: "sort_key f xs \<noteq> []"
    using assms by (metis length_sort list.size(3) length_0_conv)
  then obtain r rs where eq: "sort_key f xs = r # rs" by (cases "sort_key f xs") auto
  have "sorted (map f (r # rs))" using sorted_sort_key[of f xs] eq by simp
  then have "\<forall>x \<in> set (r # rs). f r \<le> f x" by auto
  moreover have "set (r # rs) = set xs" using set_sort[of f xs] eq by simp
  ultimately show ?thesis using eq by auto
qed

text \<open>
  Test selection, apart from probability.  For a subject and level
  that are not blank and a store that answers: with no matching test the
  request fails with status 404; otherwise it returns one matching test, for
  the mode \<^verbatim>\<open>latest\<close> one that no match is newer than, and for any other mode or
  none the match with the least draw, so that every match is returned for some
  draws.
\<close>

lemma get_tests_selects:
  assumes "subject = trim (or_empty (g_subject query))" and "subject \<noteq> []"
    and "level = trim (or_empty (g_level query))" and "level \<noteq> []"
    and "outages w = []"
    and "matching = filter (\<lambda>t. t_subject t = subject \<and> t_level t = level) (tests w)"
  shows "(matching = [] \<longrightarrow> get_tests rnd w query = (Inl No_tests_found, w) \<and> status No_tests_found = 404)
       \<and> (matching \<noteq> [] \<longrightarrow>
            (\<exists>row. get_tests rnd w query = (Inr (view_of row), w)
               \<and> row \<in> set matching
               \<and> (if g_pick query \<noteq> None \<and> trim (or_empty (g_pick query)) = text_of ''latest''
                   then \<forall>t \<in> set matching. t_created_at t \<le> t_created_at row
                   else \<forall>t \<in> set matching. rnd (t_id row) \<le> rnd (t_id t))))"
proof -
  let ?pick = "trim (if falsy (g_pick query) then (text_of ''random'') else or_empty (g_pick query))"
  let ?ordered = "if ?pick = text_of ''latest''
                  then sort_key (\<lambda>t. - int (t_created_at t)) matching
                  else sort_key (\<lambda>t. rnd (t_id t)) matching"
  have run: "get_tests rnd w query =
               (case take 1 ?ordered of
                  [] \<Rightarrow> (Inl No_tests_found, w)
                | row # _ \<Rightarrow> (Inr (view_of row), w))"
    using assms by (simp add: get_tests_def Let_def pool_query_up)
  have random: "trim (text_of ''random'') \<noteq> text_of ''latest''"
    by code_simp
  have empty: "trim [] \<noteq> text_of ''latest''"
    by code_simp
  have pick: "?pick = (text_of ''latest'') \<longleftrightarrow> g_pick query \<noteq> None \<and> trim (or_empty (g_pick query)) = text_of ''latest''"
    using random empty by (cases "g_pick query") (auto simp: falsy_def or_empty_def)
  have 1: "matching = [] \<longrightarrow> get_tests rnd w query = (Inl No_tests_found, w) \<and> status No_tests_found = 404"
    by (simp add: run)
  have 2: "\<exists>row. get_tests rnd w query = (Inr (view_of row), w)
               \<and> row \<in> set matching
               \<and> (if g_pick query \<noteq> None \<and> trim (or_empty (g_pick query)) = text_of ''latest''
                   then \<forall>t \<in> set matching. t_created_at t \<le> t_created_at row
                   else \<forall>t \<in> set matching. rnd (t_id row) \<le> rnd (t_id t))"
    if ne: "matching \<noteq> []"
  proof (cases "?pick = text_of ''latest''")
    case True
    obtain r rs where s: "sort_key (\<lambda>t. - int (t_created_at t)) matching = r # rs" "r \<in> set matching"
      "\<forall>x \<in> set matching. - int (t_created_at r) \<le> - int (t_created_at x)"
      using sort_key_first[OF ne, of "\<lambda>t. - int (t_created_at t)"] by blast
    have "get_tests rnd w query = (Inr (view_of r), w)"
      unfolding run using True s(1) by simp
    moreover have "\<forall>t \<in> set matching. t_created_at t \<le> t_created_at r"
      using s(3) by simp
    ultimately show ?thesis using s(2) True pick by auto
  next
    case False
    obtain r rs where s: "sort_key (\<lambda>t. rnd (t_id t)) matching = r # rs" "r \<in> set matching"
      "\<forall>x \<in> set matching. rnd (t_id r) \<le> rnd (t_id x)"
      using sort_key_first[OF ne, of "\<lambda>t. rnd (t_id t)"] by blast
    have "get_tests rnd w query = (Inr (view_of r), w)"
      unfolding run using False s(1) by simp
    then show ?thesis using s(2,3) False pick by auto
  qed
  show ?thesis using 1 2 by blast
qed

lemma get_tests_any_match:
  assumes "subject = trim (or_empty (g_subject query))" and "subject \<noteq> []"
    and "level = trim (or_empty (g_level query))" and "level \<noteq> []"
    and "outages w = []"
    and "t \<in> set (tests w)" and "t_subject t = subject" and "t_level t = level"
    and "distinct (map t_id (tests w))"
    and "g_pick query = None"
  shows "get_tests (\<lambda>i. if i = t_id t then 0 else 1) w query = (Inr (view_of t), w)"
proof -
  let ?m = "filter (\<lambda>t. t_subject t = subject \<and> t_level t = level) (tests w)"
  let ?rnd = "\<lambda>i. if i = t_id t then 0 else (1::rat)"
  have mem: "t \<in> set ?m" using assms(6-8) by simp
  have ne: "?m \<noteq> []"
  proof
    assume "?m = []"
    then have "set ?m = {}" by (simp only: set_empty)
    with mem have "t \<in> {}" by (simp only:)
    then show False by (simp only: empty_iff)
  qed
  obtain row where row: "get_tests ?rnd w query = (Inr (view_of row), w)" "row \<in> set ?m"
    "\<forall>x \<in> set ?m. ?rnd (t_id row) \<le> ?rnd (t_id x)"
    using get_tests_selects[OF assms(1-5) refl, of ?rnd] ne assms(10) by auto
  have "?rnd (t_id row) \<le> ?rnd (t_id t)" using row(3) mem by blast
  then have "t_id row = t_id t" by (simp split: if_splits)
  moreover have "row \<in> set (tests w)" using row(2) by simp
  ultimately have "row = t"
    using assms(6,9) by (meson distinct_map inj_onD)
  then show ?thesis using row(1) by simp
qed

section \<open>Properties of stored file names\<close>

lemma includes_strD: "includes_str s t \<Longrightarrow> \<exists>pre post. s = pre @ t @ post"
proof (induction s)
  case Nil
  then show ?case by simp
next
  case (Cons c cs)
  from Cons.prems have "prefix t (c # cs) \<or> includes_str cs t" by simp
  then show ?case
  proof
    assume "prefix t (c # cs)"
    then obtain post where "c # cs = [] @ t @ post" by (auto simp: prefix_def)
    then show ?thesis by blast
  next
    assume "includes_str cs t"
    then obtain pre post where "cs = pre @ t @ post" using Cons.IH by blast
    then have "c # cs = (c # pre) @ t @ post" by simp
    then show ?thesis by blast
  qed
qed

lemma digit_unit_plain:
  "d < 10 \<Longrightarrow> digit_unit d \<noteq> char_code CHR ''.'' \<and> digit_unit d \<noteq> char_code CHR ''/''"
  by (simp add: digit_unit_def char_code_def)

lemma show_nat_plain:
  "char_code CHR ''.'' \<notin> set (show_nat n) \<and> char_code CHR ''/'' \<notin> set (show_nat n) \<and> show_nat n \<noteq> []"
proof (induction n rule: show_nat.induct)
  case (1 n)
  show ?case
  proof (cases "n < 10")
    case True
    then show ?thesis using digit_unit_plain[of n] by (subst (1 2 3) show_nat.simps) auto
  next
    case False
    moreover have "n mod 10 < 10" by simp
    ultimately show ?thesis
      using 1 digit_unit_plain[of "n mod 10"] by (subst (1 2 3) show_nat.simps) auto
  qed
qed

lemma lower_unit_plain:
  "(lower_unit c = char_code CHR ''.'') = (c = char_code CHR ''.'')"
  "(lower_unit c = char_code CHR ''/'') = (c = char_code CHR ''/'')"
  by (auto simp: lower_unit_def char_code_def)

text \<open>Lower-casing an ASCII extension leaves it an extension.\<close>

lemma lower_extname:
  assumes "is_extname e" and "list_all is_ascii e"
  shows "is_extname (toLowerCase uc e)"
proof (cases e)
  case Nil
  then show ?thesis by (simp add: toLowerCase_def is_extname_def)
next
  case (Cons c rest)
  then have e: "c = char_code CHR ''.''" "char_code CHR ''.'' \<notin> set rest" "char_code CHR ''/'' \<notin> set rest"
    using assms(1) by (auto simp: is_extname_def)
  have low: "toLowerCase uc e = char_code CHR ''.'' # map lower_unit rest"
    using assms(2) Cons e(1) lower_unit_plain(1)[of "char_code CHR ''.''"]
    by (simp add: toLowerCase_def)
  have "char_code CHR ''.'' \<notin> set (map lower_unit rest)" "char_code CHR ''/'' \<notin> set (map lower_unit rest)"
    using e(2,3) lower_unit_plain[symmetric] by (auto simp: eq_commute[of "char_code c" "lower_unit x" for c x])
  then show ?thesis
    unfolding low by (simp add: is_extname_def char_code_def)
qed

lemma safeExt_shape:
  assumes "is_extname (toLowerCase uc e)"
  shows "\<exists>rest. safeExt uc e = char_code CHR ''.'' # rest
           \<and> char_code CHR ''.'' \<notin> set rest \<and> char_code CHR ''/'' \<notin> set rest"
proof (cases "toLowerCase uc e \<noteq> [] \<and> length (toLowerCase uc e) \<le> 6")
  case False
  then have "safeExt uc e = text_of ''.png''" by (auto simp: safeExt_def Let_def)
  then show ?thesis by (simp add: text_of_def char_code_def)
next
  case True
  then have "safeExt uc e = toLowerCase uc e" by (simp add: safeExt_def Let_def)
  then show ?thesis
    using True assms by (cases "toLowerCase uc e") (auto simp: is_extname_def)
qed

lemma no_dot_no_dotdot:
  assumes "char_code CHR ''.'' \<notin> set a" and "char_code CHR ''.'' \<notin> set b"
  shows "\<not> includes_str (a @ char_code CHR ''.'' # b) (text_of ''..'')"
proof
  assume "includes_str (a @ char_code CHR ''.'' # b) (text_of ''..'')"
  then obtain pre post where eq: "a @ char_code CHR ''.'' # b = pre @ text_of ''..'' @ post"
    using includes_strD by blast
  have "count_list (a @ char_code CHR ''.'' # b) (char_code CHR ''.'') = 1"
    using assms by (simp add: count_list_0_iff)
  moreover have "2 \<le> count_list (pre @ text_of ''..'' @ post) (char_code CHR ''.'')"
    by (simp add: text_of_def)
  ultimately show False using eq by simp
qed

text \<open>
  The names the storage generates qualify as plain names (the extension of the
  original name, in lower case, is still an extension: so it is for every
  ASCII name, by \<open>lower_extname\<close>).
\<close>

lemma stored_name_plain:
  assumes "is_extname (toLowerCase uc e)" and "set hex \<subseteq> set (text_of ''0123456789abcdef'')"
  shows "plain_name (stored_name uc now hex e)"
proof -
  obtain rest where ext: "safeExt uc e = char_code CHR ''.'' # rest"
    "char_code CHR ''.'' \<notin> set rest" "char_code CHR ''/'' \<notin> set rest"
    using safeExt_shape[OF assms(1)] by blast
  let ?a = "show_nat now @ text_of ''-'' @ hex"
  have "char_code CHR ''.'' \<notin> set (text_of ''0123456789abcdef'')"
    "char_code CHR ''/'' \<notin> set (text_of ''0123456789abcdef'')"
    by (simp_all add: text_of_def char_code_def)
  then have hex: "char_code CHR ''.'' \<notin> set hex" "char_code CHR ''/'' \<notin> set hex"
    using assms(2) by blast+
  have dash: "char_code CHR ''.'' \<notin> set (text_of ''-'')" "char_code CHR ''/'' \<notin> set (text_of ''-'')"
    by (simp_all add: text_of_def char_code_def)
  have a: "char_code CHR ''.'' \<notin> set ?a" "char_code CHR ''/'' \<notin> set ?a"
    using show_nat_plain[of now] hex dash by auto
  have name: "stored_name uc now hex e = ?a @ char_code CHR ''.'' # rest"
    by (simp add: stored_name_def ext(1))
  have "\<not> includes_str (stored_name uc now hex e) (text_of ''..'')"
    unfolding name using a(1) ext(2) by (rule no_dot_no_dotdot)
  moreover have "char_code CHR ''/'' \<noteq> char_code CHR ''.''"
    by (simp add: char_code_def)
  then have "char_code CHR ''/'' \<notin> set (stored_name uc now hex e)"
    unfolding name using a(2) ext(3) by simp
  moreover have "2 \<le> length (stored_name uc now hex e)"
    unfolding name by simp
  then have "stored_name uc now hex e \<noteq> []" "stored_name uc now hex e \<noteq> text_of ''.''"
    by auto
  ultimately show ?thesis by (simp add: plain_name_def)
qed

section \<open>Properties of a valid upload\<close>

text \<open>
  The upload as a whole, for a request that passes every check: the new test is
  stored with the encoded key and the image that came with the request.
\<close>

lemma upload_valid_key:
  assumes "u_file req = Some f" and "\<not> falsy (u_subject req)" and "\<not> falsy (u_level req)"
    and "parseInt (u_num_questions req) = Some (int N)" and "1 \<le> N" and "N \<le> 200"
    and "(case parseInt (u_choices_count req) of None \<Rightarrow> 5 | Some c \<Rightarrow> if c = 0 then 5 else c) = int C"
    and "C = 4 \<or> C = 5"
    and "u_answer_key req = Some s" and "length s = N" and "set s \<subseteq> set (letters_of C)"
    and "outages w = []" and "new_id \<notin> set (map t_id (tests w))"
  shows "\<exists>row. upload_test uc new_id now w req = (Inr row, w\<lparr>tests := tests w @ [row]\<rparr>)
           \<and> t_id row = new_id
           \<and> t_answer_key row = map (key_entry s) [0..<N]
           \<and> image_url (t_questions row) = Some (text_of ''/uploads/'' @ f)
           \<and> num_questions (t_questions row) = Some (of_nat N)"
proof -
  have enc: "encode_answer_key uc (letters_of C) (rat_of_nat N) (u_answer_key req)
               = Inr (map (key_entry s) [0..<N])"
    using encode_plain_key[OF assms(8,11)] assms(9,10) by simp
  show ?thesis
    using assms(1-8,12,13)
    by (simp add: upload_test_def Let_def enc insert_test_def pool_query_up del: append_Cons)
qed

end
